theory Spec2Isabelle
  imports Complex_Main "HOL-Library.Log_Nat" "HOL-Library.Multiset"
begin

unbundle bit_operations_syntax

section \<open>JavaScript numbers\<close>

text \<open>
  Every number of the simulator is an IEEE binary64 value. A finite one is modelled by the
  real it denotes, and every arithmetic result is rounded to 53 significant bits, ties to
  even (\<open>fl\<close>). The model keeps the exponent unbounded (no overflow to infinity, no
  subnormals) and has one zero, which behaves as \<open>+0\<close>: no divisor of the program is
  the result of a product or of a negation, so no \<open>-0\<close> reaches a division. Infinities
  and NaN arise from divisions by zero only; they are the three extra values of \<open>jsnum\<close>.
  Loop counters and array lengths are natural numbers.
\<close>

definition pow2 :: "int \<Rightarrow> real" where
  "pow2 e = (if 0 \<le> e then 2 ^ nat e else 1 / 2 ^ nat (- e))"

definition round_even :: "real \<Rightarrow> int" where
  "round_even x = (let f = \<lfloor>x\<rfloor>; d = x - of_int f in
     if d < 1/2 then f else if 1/2 < d then f + 1 else if even f then f else f + 1)"

text \<open>\<open>ilog2 x\<close> is the binary exponent of a positive \<open>x\<close>: \<open>2^(ilog2 x) \<le> x < 2^(ilog2 x + 1)\<close>.\<close>

definition ilog2 :: "real \<Rightarrow> int" where
  "ilog2 x = (if 1 \<le> x then bitlen \<lfloor>x\<rfloor> - 1 else - bitlen (\<lceil>1 / x\<rceil> - 1))"

definition fl :: "real \<Rightarrow> real" where
  "fl x = (if x = 0 then 0 else
     let e = ilog2 \<bar>x\<bar> - 52 in of_int (round_even (x / pow2 e)) * pow2 e)"

definition fadd :: "real \<Rightarrow> real \<Rightarrow> real" where "fadd a b = fl (a + b)"
definition fsub :: "real \<Rightarrow> real \<Rightarrow> real" where "fsub a b = fl (a - b)"
definition fmul :: "real \<Rightarrow> real \<Rightarrow> real" where "fmul a b = fl (a * b)"

text \<open>\<open>fdiv\<close> is used where the divisor is a non-zero constant of the source.\<close>

definition fdiv :: "real \<Rightarrow> real \<Rightarrow> real" where "fdiv a b = fl (a / b)"

datatype jsnum = Fin real | PInf | NInf | NaN

fun jneg :: "jsnum \<Rightarrow> jsnum" where
  "jneg (Fin a) = Fin (- a)"
| "jneg PInf = NInf"
| "jneg NInf = PInf"
| "jneg NaN = NaN"

fun jadd :: "jsnum \<Rightarrow> jsnum \<Rightarrow> jsnum" where
  "jadd (Fin a) (Fin b) = Fin (fadd a b)"
| "jadd NaN _ = NaN"
| "jadd _ NaN = NaN"
| "jadd PInf NInf = NaN"
| "jadd NInf PInf = NaN"
| "jadd PInf _ = PInf"
| "jadd _ PInf = PInf"
| "jadd NInf _ = NInf"
| "jadd _ NInf = NInf"

fun jsub :: "jsnum \<Rightarrow> jsnum \<Rightarrow> jsnum" where
  "jsub (Fin a) (Fin b) = Fin (fsub a b)"
| "jsub a b = jadd a (jneg b)"

fun jmul :: "jsnum \<Rightarrow> jsnum \<Rightarrow> jsnum" where
  "jmul (Fin a) (Fin b) = Fin (fmul a b)"
| "jmul NaN _ = NaN"
| "jmul _ NaN = NaN"
| "jmul PInf (Fin b) = (if b = 0 then NaN else if 0 < b then PInf else NInf)"
| "jmul NInf (Fin b) = (if b = 0 then NaN else if 0 < b then NInf else PInf)"
| "jmul (Fin a) PInf = (if a = 0 then NaN else if 0 < a then PInf else NInf)"
| "jmul (Fin a) NInf = (if a = 0 then NaN else if 0 < a then NInf else PInf)"
| "jmul PInf PInf = PInf"
| "jmul PInf NInf = NInf"
| "jmul NInf PInf = NInf"
| "jmul NInf NInf = PInf"

fun jdiv :: "jsnum \<Rightarrow> jsnum \<Rightarrow> jsnum" where
  "jdiv (Fin a) (Fin b) =
     (if b \<noteq> 0 then Fin (fdiv a b)
      else if a = 0 then NaN else if 0 < a then PInf else NInf)"
| "jdiv NaN _ = NaN"
| "jdiv _ NaN = NaN"
| "jdiv (Fin a) PInf = Fin 0"
| "jdiv (Fin a) NInf = Fin 0"
| "jdiv PInf (Fin b) = (if 0 \<le> b then PInf else NInf)"
| "jdiv NInf (Fin b) = (if 0 \<le> b then NInf else PInf)"
| "jdiv _ _ = NaN"

text \<open>\<open>a < b\<close>; \<open>a > b\<close> of the source is \<open>jlt b a\<close>. A comparison with NaN is false.\<close>

fun jlt :: "jsnum \<Rightarrow> jsnum \<Rightarrow> bool" where
  "jlt (Fin a) (Fin b) = (a < b)"
| "jlt NaN _ = False"
| "jlt _ NaN = False"
| "jlt _ NInf = False"
| "jlt PInf _ = False"
| "jlt NInf _ = True"
| "jlt _ PInf = True"

text \<open>\<open>Math.floor\<close>, \<open>Math.round\<close>, \<open>Math.sqrt\<close>, \<open>Math.pow(x, 2)\<close> (taken as the
  correctly rounded square) and the two-argument \<open>Math.min\<close>.\<close>

fun jfloor :: "jsnum \<Rightarrow> jsnum" where
  "jfloor (Fin a) = Fin (of_int \<lfloor>a\<rfloor>)"
| "jfloor x = x"

fun jround :: "jsnum \<Rightarrow> jsnum" where
  "jround (Fin a) = Fin (of_int \<lfloor>a + 1/2\<rfloor>)"
| "jround x = x"

fun jsqrt :: "jsnum \<Rightarrow> jsnum" where
  "jsqrt (Fin a) = (if a < 0 then NaN else Fin (fl (sqrt a)))"
| "jsqrt PInf = PInf"
| "jsqrt x = NaN"

fun jsquare :: "jsnum \<Rightarrow> jsnum" where
  "jsquare (Fin a) = Fin (fmul a a)"
| "jsquare NaN = NaN"
| "jsquare x = PInf"

fun jmin2 :: "jsnum \<Rightarrow> jsnum \<Rightarrow> jsnum" where
  "jmin2 NaN _ = NaN"
| "jmin2 _ NaN = NaN"
| "jmin2 a b = (if jlt b a then b else a)"

fun jmax2 :: "jsnum \<Rightarrow> jsnum \<Rightarrow> jsnum" where
  "jmax2 NaN _ = NaN"
| "jmax2 _ NaN = NaN"
| "jmax2 a b = (if jlt a b then b else a)"

text \<open>\<open>Math.min(...xs)\<close> and \<open>Math.max(...xs)\<close>: \<open>Infinity\<close> and \<open>-Infinity\<close> on no
  argument, NaN as soon as one argument is NaN.\<close>

definition jmin_list :: "jsnum list \<Rightarrow> jsnum" where
  "jmin_list xs = foldl jmin2 PInf xs"

definition jmax_list :: "jsnum list \<Rightarrow> jsnum" where
  "jmax_list xs = foldl jmax2 NInf xs"

text \<open>An array read \<open>xs[i]\<close> that takes part in arithmetic: \<open>undefined\<close> out of range,
  which every arithmetic operator turns into NaN.\<close>

definition nth_num :: "jsnum list \<Rightarrow> int \<Rightarrow> jsnum" where
  "nth_num xs i = (if 0 \<le> i \<and> i < int (length xs) then xs ! nat i else NaN)"

text \<open>An array read whose result is stored as it is: \<open>None\<close> is \<open>undefined\<close>.\<close>

definition nth_opt :: "'a list \<Rightarrow> int \<Rightarrow> 'a option" where
  "nth_opt xs i = (if 0 \<le> i \<and> i < int (length xs) then Some (xs ! nat i) else None)"

section \<open>Data model\<close>

record farmType =
  ft_id :: int
  ft_name :: string
  sharePercent :: real
  minDiscount :: real
  maxDiscount :: real

record scenario =
  sc_id :: int
  sc_name :: string
  lastYearCost :: real
  lastYearFarms :: int
  minNewFarms :: int
  maxNewFarms :: int
  trials :: int
  farmTypes :: "farmType list"

record statistics =
  mean :: jsnum
  median :: "jsnum option"
  std :: jsnum
  smin :: jsnum
  smax :: jsnum
  p10 :: "jsnum option"
  p90 :: "jsnum option"
  probPositive :: jsnum

record simulationResult =
  stats :: statistics
  savings :: "jsnum list"

section \<open>RNG (createRNG)\<close>

text \<open>
  The state is a number holding a non-negative integer: the seed \<open>42\<close>, or the floor of
  \<open>Math.random() * 1000000\<close>, or the result of \<open>& 0x7fffffff\<close>. The update
  \<open>state = (state * 1103515245 + 12345) & 0x7fffffff\<close> multiplies and adds in binary64
  (the product exceeds \<open>2^53\<close> for most states and is rounded), converts with ToInt32
  and keeps the low 31 bits.
\<close>

definition to_int32 :: "real \<Rightarrow> int" where
  "to_int32 x = (let n = (if 0 \<le> x then \<lfloor>x\<rfloor> else \<lceil>x\<rceil>); m = n mod 2 ^ 32
                 in if 2 ^ 31 \<le> m then m - 2 ^ 32 else m)"

definition lcg :: "nat \<Rightarrow> nat" where
  "lcg state = nat (to_int32 (fadd (fmul (real state) 1103515245) 12345) AND 0x7fffffff)"

text \<open>\<open>seed || Math.floor(Math.random() * 1000000)\<close>: the second argument is the value
  the environment would give for the right operand; it is read only when the seed is
  absent or zero.\<close>

definition createRNG :: "nat option \<Rightarrow> nat \<Rightarrow> nat" where
  "createRNG seed env_random =
     (case seed of None \<Rightarrow> env_random | Some s \<Rightarrow> if s = 0 then env_random else s)"


definition rng_integers :: "real \<Rightarrow> real \<Rightarrow> nat \<Rightarrow> int \<times> nat" where
  "rng_integers mn mx state =
     (let k = fadd (fsub mx mn) 1; state' = lcg state
      in (\<lfloor>fadd mn (fdiv (fmul k (real state')) 0x7fffffff)\<rfloor>, state'))"

definition rng_uniform :: "jsnum \<Rightarrow> jsnum \<Rightarrow> nat \<Rightarrow> jsnum \<times> nat" where
  "rng_uniform mn mx state =
     (let state' = lcg state
      in (jadd mn (jmul (jsub mx mn) (Fin (fdiv (real state') 0x7fffffff))), state'))"

text \<open>The loop of \<open>choice\<close>, from index \<open>i\<close> with \<open>k\<close> indices left.\<close>

fun choice_loop :: "real \<Rightarrow> jsnum list \<Rightarrow> nat \<Rightarrow> nat \<Rightarrow> jsnum \<Rightarrow> nat option" where
  "choice_loop r probs i 0 cumsum = None"
| "choice_loop r probs i (Suc k) cumsum =
     (let cumsum' = jadd cumsum (nth_num probs (int i))
      in if jlt (Fin r) cumsum' then Some i else choice_loop r probs (Suc i) k cumsum')"

definition rng_choice :: "nat \<Rightarrow> jsnum list \<Rightarrow> nat \<Rightarrow> int \<times> nat" where
  "rng_choice n probs state =
     (let state' = lcg state; r = fdiv (real state') 0x7fffffff
      in (case choice_loop r probs 0 n (Fin 0) of Some i \<Rightarrow> int i | None \<Rightarrow> int n - 1, state'))"

section \<open>Validation (validateScenario)\<close>

text \<open>
  The keys of the error object: the six field names and, for the farm type at index
  \<open>idx\<close>, the keys \<open>farmType_idx_share\<close>, \<open>farmType_idx_minDiscount\<close>,
  \<open>farmType_idx_maxDiscount\<close> and \<open>farmType_idx_discount\<close>. The messages are the
  six texts of the source; the one about the shares carries the computed total, which
  the source prints with \<open>toFixed(1)\<close>.
\<close>

datatype errKey =
  K_lastYearCost | K_lastYearFarms | K_minNewFarms | K_maxNewFarms | K_trials | K_farmTypes
| K_share nat | K_minDiscount nat | K_maxDiscount nat | K_discount nat

datatype errMsg =
  MustBeGreaterThan0 | MinFarmsCannotExceedMaxFarms | MustBeBetween1And200000
| SharesMustSumTo100 real | MustBe0To100 | MaxMustBeAtLeastMin

type_synonym errors = "errKey \<rightharpoonup> errMsg"

definition totalShare :: "farmType list \<Rightarrow> real" where
  "totalShare fts = foldl (\<lambda>sum ft. fadd sum (sharePercent ft)) 0 fts"

definition check_farmType :: "nat \<Rightarrow> farmType \<Rightarrow> errors \<Rightarrow> errors" where
  "check_farmType idx ft e0 =
     (let e1 = (if sharePercent ft < 0 \<or> sharePercent ft > 100
                then e0(K_share idx \<mapsto> MustBe0To100) else e0);
          e2 = (if minDiscount ft < 0 \<or> minDiscount ft > 100
                then e1(K_minDiscount idx \<mapsto> MustBe0To100) else e1);
          e3 = (if maxDiscount ft < 0 \<or> maxDiscount ft > 100
                then e2(K_maxDiscount idx \<mapsto> MustBe0To100) else e2)
      in if minDiscount ft > maxDiscount ft
         then e3(K_discount idx \<mapsto> MaxMustBeAtLeastMin) else e3)"

fun check_farmTypes :: "nat \<Rightarrow> farmType list \<Rightarrow> errors \<Rightarrow> errors" where
  "check_farmTypes idx [] e = e"
| "check_farmTypes idx (ft # fts) e = check_farmTypes (Suc idx) fts (check_farmType idx ft e)"

definition field_errors :: "scenario \<Rightarrow> errors" where
  "field_errors s =
     (let e0 = Map.empty;
          e1 = (if lastYearCost s \<le> 0 then e0(K_lastYearCost \<mapsto> MustBeGreaterThan0) else e0);
          e2 = (if lastYearFarms s \<le> 0 then e1(K_lastYearFarms \<mapsto> MustBeGreaterThan0) else e1);
          e3 = (if minNewFarms s \<le> 0 then e2(K_minNewFarms \<mapsto> MustBeGreaterThan0) else e2);
          e4 = (if maxNewFarms s \<le> 0 then e3(K_maxNewFarms \<mapsto> MustBeGreaterThan0) else e3);
          e5 = (if minNewFarms s > maxNewFarms s
                then e4(K_minNewFarms \<mapsto> MinFarmsCannotExceedMaxFarms) else e4);
          e6 = (if trials s \<le> 0 \<or> trials s > 200000
                then e5(K_trials \<mapsto> MustBeBetween1And200000) else e5)
      in if \<bar>fsub (totalShare (farmTypes s)) 100\<bar> > 1/2
         then e6(K_farmTypes \<mapsto> SharesMustSumTo100 (totalShare (farmTypes s))) else e6)"

text \<open>The new value of the \<open>errors\<close> state and the returned boolean.\<close>

definition validateScenario :: "scenario \<Rightarrow> errors \<times> bool" where
  "validateScenario s =
     (let newErrors = check_farmTypes 0 (farmTypes s) (field_errors s)
      in (newErrors, dom newErrors = {}))"

section \<open>Simulation (runFarmTypeSimulation)\<close>

text \<open>The values computed before the trial loop.\<close>

record precomputed =
  avgPriceLastYear :: jsnum
  probs :: "jsnum list"
  minMult :: "jsnum list"
  maxMult :: "jsnum list"

definition precompute :: "scenario \<Rightarrow> precomputed" where
  "precompute s =
     (let shares = map sharePercent (farmTypes s);
          total = foldl fadd 0 shares
      in \<lparr> avgPriceLastYear = jdiv (Fin (lastYearCost s)) (Fin (real_of_int (lastYearFarms s))),
           probs = map (\<lambda>sh. jdiv (Fin sh) (Fin total)) shares,
           minMult = map (\<lambda>ft. Fin (fsub 1 (fdiv (maxDiscount ft) 100))) (farmTypes s),
           maxMult = map (\<lambda>ft. Fin (fsub 1 (fdiv (minDiscount ft) 100))) (farmTypes s) \<rparr>)"

text \<open>The loop over the farms of one trial, with \<open>j\<close> farms left: it returns
  \<open>thisYearCostPartial\<close> and the state of the generator.\<close>

fun farm_loop :: "nat \<Rightarrow> nat \<Rightarrow> precomputed \<Rightarrow> nat \<Rightarrow> jsnum \<Rightarrow> jsnum \<times> nat" where
  "farm_loop 0 n pc state thisYearCostPartial = (thisYearCostPartial, state)"
| "farm_loop (Suc j) n pc state thisYearCostPartial =
     (let (typeIdx, state1) = rng_choice n (probs pc) state;
          (multiplier, state2) =
             rng_uniform (nth_num (minMult pc) typeIdx) (nth_num (maxMult pc) typeIdx) state1
      in farm_loop j n pc state2
           (jadd thisYearCostPartial (jmul multiplier (avgPriceLastYear pc))))"

text \<open>One pass of the trial loop: the value pushed on \<open>savings\<close> and the new state.\<close>

definition run_trial :: "scenario \<Rightarrow> precomputed \<Rightarrow> nat \<Rightarrow> jsnum \<times> nat" where
  "run_trial s pc state =
     (let (nFarms, state1) =
             rng_integers (real_of_int (minNewFarms s)) (real_of_int (maxNewFarms s)) state;
          (thisYearCostPartial, state2) =
             farm_loop (nat nFarms) (length (farmTypes s)) pc state1 (Fin 0);
          thisYearScaledCost =
             jmul thisYearCostPartial
               (jdiv (Fin (real_of_int (lastYearFarms s))) (Fin (real_of_int nFarms)))
      in (jsub (Fin (lastYearCost s)) thisYearScaledCost, state2))"

fun trial_loop :: "nat \<Rightarrow> scenario \<Rightarrow> precomputed \<Rightarrow> nat \<Rightarrow> jsnum list" where
  "trial_loop 0 s pc state = []"
| "trial_loop (Suc i) s pc state =
     (let (sv, state') = run_trial s pc state in sv # trial_loop i s pc state')"

text \<open>\<open>[...savings].sort((a, b) => a - b)\<close>: the order of the result is fixed by the
  comparator whenever no element is NaN; it is computed here by insertion.\<close>

fun js_insert :: "jsnum \<Rightarrow> jsnum list \<Rightarrow> jsnum list" where
  "js_insert x [] = [x]"
| "js_insert x (y # ys) =
     (if jlt (jsub x y) (Fin 0) then x # y # ys else y # js_insert x ys)"

definition js_sort :: "jsnum list \<Rightarrow> jsnum list" where
  "js_sort xs = foldr js_insert xs []"

definition compute_stats :: "jsnum list \<Rightarrow> statistics" where
  "compute_stats svs =
     (let sortedSavings = js_sort svs;
          len = real (length svs);
          mean' = jdiv (foldl jadd (Fin 0) svs) (Fin len);
          variance =
            jdiv (foldl (\<lambda>sum val. jadd sum (jsquare (jsub val mean'))) (Fin 0) svs)
                 (Fin (fsub len 1))
      in \<lparr> mean = mean',
           median = nth_opt sortedSavings \<lfloor>fdiv len 2\<rfloor>,
           std = jsqrt variance,
           smin = jmin_list svs,
           smax = jmax_list svs,
           p10 = nth_opt sortedSavings \<lfloor>fmul len (fl (1/10))\<rfloor>,
           p90 = nth_opt sortedSavings \<lfloor>fmul len (fl (9/10))\<rfloor>,
           probPositive =
             jdiv (Fin (real (length (filter (\<lambda>sv. jlt (Fin 0) sv) svs)))) (Fin len) \<rparr>)"

text \<open>The generator is created with the seed \<open>42\<close>; \<open>env_random\<close> stands for what
  \<open>Math.random\<close> would give at that moment.\<close>

definition runFarmTypeSimulation :: "nat \<Rightarrow> scenario \<Rightarrow> simulationResult" where
  "runFarmTypeSimulation env_random s =
     (let rng = createRNG (Some 42) env_random;
          svs = trial_loop (nat (trials s)) s (precompute s) rng
      in \<lparr> stats = compute_stats svs, savings = svs \<rparr>)"

section \<open>Histogram (createHistogramData)\<close>

record bin =
  bin_savings :: jsnum
  bin_count :: nat

text \<open>\<open>bins[binIndex]++\<close>: an index that is not one of the positions of the array (NaN,
  a negative number) names a property beside the elements and leaves the counts as they
  are; \<open>Math.min(_, numBins - 1)\<close> keeps it below the length.\<close>

definition bump :: "nat list \<Rightarrow> jsnum \<Rightarrow> nat list" where
  "bump bins binIndex =
     (case binIndex of
        Fin x \<Rightarrow> if 0 \<le> x \<and> x < real (length bins) \<and> x = of_int \<lfloor>x\<rfloor>
                 then bins[nat \<lfloor>x\<rfloor> := Suc (bins ! nat \<lfloor>x\<rfloor>)] else bins
      | _ \<Rightarrow> bins)"

definition bin_index :: "jsnum \<Rightarrow> jsnum \<Rightarrow> jsnum \<Rightarrow> jsnum" where
  "bin_index mn binWidth sv = jmin2 (jfloor (jdiv (jsub sv mn) binWidth)) (Fin 39)"

definition createHistogramData :: "jsnum list \<Rightarrow> bin list" where
  "createHistogramData svs =
     (let numBins = 40;
          mn = jmin_list svs;
          mx = jmax_list svs;
          binWidth = jdiv (jsub mx mn) (Fin (real numBins));
          bins = foldl (\<lambda>bins sv. bump bins (bin_index mn binWidth sv)) (replicate numBins 0) svs
      in map (\<lambda>i. \<lparr> bin_savings = jround (jadd mn (jmul (Fin (real i)) binWidth)),
                    bin_count = bins ! i \<rparr>) [0..<numBins])"

text \<open>\<open>handleRunSimulation\<close>: nothing is run when the validation fails.\<close>

definition handleRunSimulation :: "nat \<Rightarrow> scenario \<Rightarrow> (simulationResult \<times> bin list) option" where
  "handleRunSimulation env_random s =
     (if snd (validateScenario s)
      then (let result = runFarmTypeSimulation env_random s
            in Some (result, createHistogramData (savings result)))
      else None)"
section \<open>The trial, as the specification words it\<close>

text \<open>
  The multipliers of the farms of one trial, in the order in which they are drawn: for
  each farm a type index from \<open>choice\<close>, then a multiplier from \<open>uniform\<close> over the range
  of that type.
\<close>

fun draw_multipliers :: "nat \<Rightarrow> nat \<Rightarrow> precomputed \<Rightarrow> nat \<Rightarrow> jsnum list \<times> nat" where
  "draw_multipliers 0 n pc state = ([], state)"
| "draw_multipliers (Suc j) n pc state =
     (let (typeIdx, state1) = rng_choice n (probs pc) state;
          (multiplier, state2) =
             rng_uniform (nth_num (minMult pc) typeIdx) (nth_num (maxMult pc) typeIdx) state1;
          (rest, state3) = draw_multipliers j n pc state2
      in (multiplier # rest, state3))"

text \<open>
  \<open>savings = lastYearCost - thisYearScaledCost\<close>, where \<open>thisYearScaledCost\<close> is the sum
  over the farms of \<open>multiplier * avgPriceLastYear\<close>, accumulated from \<open>0\<close> in drawing
  order, times \<open>lastYearFarms / nFarms\<close>, and \<open>avgPriceLastYear = lastYearCost /
  lastYearFarms\<close>.
\<close>

definition spec_trial_savings :: "scenario \<Rightarrow> int \<Rightarrow> jsnum list \<Rightarrow> jsnum" where
  "spec_trial_savings s nFarms multipliers =
     (let avg = jdiv (Fin (lastYearCost s)) (Fin (real_of_int (lastYearFarms s)));
          thisYearScaledCost =
            jmul (foldl (\<lambda>acc multiplier. jadd acc (jmul multiplier avg)) (Fin 0) multipliers)
                 (jdiv (Fin (real_of_int (lastYearFarms s))) (Fin (real_of_int nFarms)))
      in jsub (Fin (lastYearCost s)) thisYearScaledCost)"

text \<open>The state of the generator when trial \<open>i\<close> of a run starts.\<close>

definition trial_state :: "scenario \<Rightarrow> nat \<Rightarrow> nat" where
  "trial_state s i = ((\<lambda>state. snd (run_trial s (precompute s) state)) ^^ i) 42"

section \<open>Scenarios\<close>

text \<open>The scenario the component starts with.\<close>

definition defaultFarmTypes :: "farmType list" where
  "defaultFarmTypes =
     [\<lparr> ft_id = 1, ft_name = ''Full price'', sharePercent = 60, minDiscount = 0, maxDiscount = 0 \<rparr>,
      \<lparr> ft_id = 2, ft_name = ''Small discount'', sharePercent = 25, minDiscount = 5, maxDiscount = 10 \<rparr>,
      \<lparr> ft_id = 3, ft_name = ''Medium discount'', sharePercent = 10, minDiscount = 15, maxDiscount = 25 \<rparr>,
      \<lparr> ft_id = 4, ft_name = ''Big discount'', sharePercent = 5, minDiscount = 30, maxDiscount = 40 \<rparr>]"

definition base_case :: scenario where
  "base_case =
     \<lparr> sc_id = 1, sc_name = ''Base Case'', lastYearCost = 1000000, lastYearFarms = 30,
       minNewFarms = 8, maxNewFarms = 15, trials = 10000, farmTypes = defaultFarmTypes \<rparr>"



text \<open>One farm type at 100 percent with a constant discount of 10 percent, 30 farms
  last year and this year, 1000 trials.\<close>

definition constant_discount_case :: scenario where
  "constant_discount_case =
     \<lparr> sc_id = 3, sc_name = ''Constant discount'', lastYearCost = 1000000, lastYearFarms = 30,
       minNewFarms = 30, maxNewFarms = 30, trials = 1000,
       farmTypes =
         [\<lparr> ft_id = 1, ft_name = ''Ten percent'', sharePercent = 100, minDiscount = 10, maxDiscount = 10 \<rparr>] \<rparr>"

text \<open>One step \<open>x += t\<close> of an accumulation; an accumulation of \<open>n\<close> equal terms from
  \<open>a\<close> is \<open>(add_to t ^^ n) a\<close>.\<close>

definition add_to :: "real \<Rightarrow> real \<Rightarrow> real" where
  "add_to t x = fadd x t"

section \<open>Mixture mode\<close>













section \<open>Rounding to binary64 precision\<close>

lemma pow2_pos [simp]: "0 < pow2 e"
  by (simp add: pow2_def)

lemma pow2_nonneg [simp]: "0 \<le> pow2 e"
  by (simp add: pow2_def)

lemma pow2_neq_0 [simp]: "pow2 e \<noteq> 0"
  using pow2_pos [of e] by linarith

lemma pow2_not_less_0 [simp]: "\<not> pow2 e < 0"
  using pow2_pos [of e] by linarith

lemma pow2_not_le_0 [simp]: "\<not> pow2 e \<le> 0"
  using pow2_pos [of e] by linarith

lemma pow2_powr: "pow2 e = 2 powr (real_of_int e)"
proof (cases "0 \<le> e")
  case True
  then show ?thesis by (simp add: pow2_def powr_realpow [symmetric])
next
  case False
  have "(2::real) ^ nat (- e) = 2 powr real (nat (- e))" by (simp add: powr_realpow)
  also have "real (nat (- e)) = - real_of_int e" using False by simp
  finally have "1 / (2::real) ^ nat (- e) = 2 powr real_of_int e"
    by (simp add: powr_minus_divide)
  with False show ?thesis by (simp add: pow2_def)
qed

lemma pow2_add: "pow2 (a + b) = pow2 a * pow2 b"
  by (simp add: pow2_powr powr_add)

lemma pow2_diff: "pow2 (a - b) = pow2 a / pow2 b"
  by (simp add: pow2_powr powr_diff)

lemma pow2_0 [simp]: "pow2 0 = 1"
  by (simp add: pow2_def)

lemma pow2_nat: "pow2 (int n) = 2 ^ n"
  by (simp add: pow2_def)

lemma pow2_shift: "pow2 (a + int n) = pow2 a * 2 ^ n"
  by (simp add: pow2_add pow2_nat)

lemma pow2_mono: "a \<le> b \<Longrightarrow> pow2 a \<le> pow2 b"
  by (simp add: pow2_powr)

lemma pow2_strict_mono: "a < b \<Longrightarrow> pow2 a < pow2 b"
  by (simp add: pow2_powr)

lemma pow2_le_iff: "pow2 a \<le> pow2 b \<longleftrightarrow> a \<le> b"
  by (simp add: pow2_powr)

lemma pow2_less_iff: "pow2 a < pow2 b \<longleftrightarrow> a < b"
  by (simp add: pow2_powr)

lemma ilog2_bounds:
  assumes "0 < x"
  shows "pow2 (ilog2 x) \<le> x" and "x < pow2 (ilog2 x + 1)"
proof -
  have "pow2 (ilog2 x) \<le> x \<and> x < pow2 (ilog2 x + 1)"
  proof (cases "1 \<le> x")
    case True
    define n where "n = \<lfloor>x\<rfloor>"
    have n: "0 < n" using True by (simp add: n_def)
    have b1: "1 \<le> bitlen n" using n by (simp add: bitlen_alt_def)
    from bitlen_bounds [OF n] have lo: "2 ^ nat (bitlen n - 1) \<le> n" and hi: "n < 2 ^ nat (bitlen n)"
      by auto
    have "real_of_int (2 ^ nat (bitlen n - 1)) \<le> real_of_int n" using lo by linarith
    also have "\<dots> \<le> x" by (simp add: n_def)
    finally have A: "pow2 (bitlen n - 1) \<le> x" using b1 by (simp add: pow2_def)
    have "n + 1 \<le> 2 ^ nat (bitlen n)" using hi by simp
    then have "real_of_int (n + 1) \<le> real_of_int (2 ^ nat (bitlen n))" by linarith
    moreover have "x < real_of_int (n + 1)" by (simp add: n_def)
    ultimately have B: "x < pow2 (bitlen n)" using b1 by (simp add: pow2_def)
    show ?thesis using True A B by (simp add: ilog2_def n_def)
  next
    case False
    define y where "y = 1 / x"
    define m where "m = \<lceil>y\<rceil> - 1"
    have y1: "1 < y" using False assms by (simp add: y_def)
    have m: "0 < m" using y1 by (simp add: m_def less_ceiling_iff)
    have my: "real_of_int m < y" "y \<le> real_of_int m + 1"
      by (simp_all add: m_def) linarith+
    have b1: "1 \<le> bitlen m" using m by (simp add: bitlen_alt_def)
    from bitlen_bounds [OF m] have lo: "2 ^ nat (bitlen m - 1) \<le> m" and hi: "m < 2 ^ nat (bitlen m)"
      by auto
    have "real_of_int (m + 1) \<le> real_of_int (2 ^ nat (bitlen m))" using hi by linarith
    then have "real_of_int m + 1 \<le> (2::real) ^ nat (bitlen m)" by simp
    then have yle: "y \<le> 2 ^ nat (bitlen m)" using my by linarith
    have "real_of_int (2 ^ nat (bitlen m - 1)) \<le> real_of_int m" using lo by linarith
    then have "(2::real) ^ nat (bitlen m - 1) \<le> real_of_int m" by simp
    then have ygt: "2 ^ nat (bitlen m - 1) < y" using my by linarith
    have x: "x = 1 / y" using assms by (simp add: y_def)
    have A: "pow2 (- bitlen m) \<le> x"
      using yle y1 b1 unfolding x by (simp add: pow2_def field_simps)
    have eq: "pow2 (- bitlen m + 1) = 1 / 2 ^ nat (bitlen m - 1)"
      using b1 by (cases "bitlen m = 1") (simp_all add: pow2_def)
    have "1 / y < 1 / 2 ^ nat (bitlen m - 1)"
      using ygt y1 by (simp add: field_simps)
    then have B: "x < pow2 (- bitlen m + 1)"
      unfolding x eq .
    show ?thesis using False A B by (simp add: ilog2_def y_def m_def)
  qed
  then show "pow2 (ilog2 x) \<le> x" and "x < pow2 (ilog2 x + 1)" by auto
qed

lemma ilog2_unique:
  assumes "pow2 k \<le> x" "x < pow2 (k + 1)"
  shows "ilog2 x = k"
proof -
  have x: "0 < x" using assms(1) pow2_pos [of k] by linarith
  from ilog2_bounds [OF x] assms
  have "pow2 k < pow2 (ilog2 x + 1)" "pow2 (ilog2 x) < pow2 (k + 1)" by linarith+
  then show ?thesis by (simp add: pow2_less_iff)
qed

lemma ilog2_mono: "0 < x \<Longrightarrow> x \<le> y \<Longrightarrow> ilog2 x \<le> ilog2 y"
proof -
  assume x: "0 < x" and xy: "x \<le> y"
  then have y: "0 < y" by linarith
  from ilog2_bounds(1) [OF x] ilog2_bounds(2) [OF y] xy
  have "pow2 (ilog2 x) < pow2 (ilog2 y + 1)" by linarith
  then show ?thesis by (simp add: pow2_less_iff)
qed

lemma round_even_of_int [simp]: "round_even (of_int n) = n"
  by (simp add: round_even_def)

lemma round_even_floor_bounds: "\<lfloor>t\<rfloor> \<le> round_even t" "round_even t \<le> \<lfloor>t\<rfloor> + 1"
  by (simp_all add: round_even_def Let_def)


lemma round_even_mono: assumes "t \<le> u" shows "round_even t \<le> round_even u"
proof (cases "\<lfloor>t\<rfloor> = \<lfloor>u\<rfloor>")
  case True
  with assms show ?thesis unfolding round_even_def Let_def by auto
next
  case False
  with assms have "\<lfloor>t\<rfloor> + 1 \<le> \<lfloor>u\<rfloor>" using floor_mono [OF assms] by linarith
  with round_even_floor_bounds(2) [of t] round_even_floor_bounds(1) [of u]
  show ?thesis by linarith
qed

lemma round_even_ge_int: "of_int n \<le> t \<Longrightarrow> n \<le> round_even t"
  using round_even_mono [of "of_int n" t] by simp

lemma round_even_le_int: "t \<le> of_int n \<Longrightarrow> round_even t \<le> n"
  using round_even_mono [of t "of_int n"] by simp

lemma round_even_minus: "round_even (- t) = - round_even t"
proof (cases "t = of_int \<lfloor>t\<rfloor>")
  case True
  then obtain n where "t = of_int n" ..
  then have "- t = of_int (- n)" by simp
  then show ?thesis using \<open>t = of_int n\<close> by (metis round_even_of_int)
next
  case False
  then have lt: "of_int \<lfloor>t\<rfloor> < t" by (metis of_int_floor_le order_neq_le_trans)
  have fm: "\<lfloor>- t\<rfloor> = - \<lfloor>t\<rfloor> - 1"
    by (rule floor_unique) (use lt in \<open>simp_all; linarith\<close>)+
  show ?thesis
    unfolding round_even_def Let_def fm using lt
    by (auto simp: field_simps)
qed

lemma mantissa_bounds:
  assumes "0 < x"
  shows "2 ^ 52 \<le> x / pow2 (ilog2 x - 52)" "x / pow2 (ilog2 x - 52) < 2 ^ 53"
proof -
  have "pow2 (ilog2 x) = pow2 (ilog2 x - 52) * 2 ^ 52"
    using pow2_shift [of "ilog2 x - 52" 52] by simp
  with ilog2_bounds(1) [OF assms] show "2 ^ 52 \<le> x / pow2 (ilog2 x - 52)"
    by (simp add: le_divide_eq mult.commute)
  have "pow2 (ilog2 x + 1) = pow2 (ilog2 x - 52) * 2 ^ 53"
    using pow2_shift [of "ilog2 x - 52" 53] by (simp add: add.commute)
  with ilog2_bounds(2) [OF assms] show "x / pow2 (ilog2 x - 52) < 2 ^ 53"
    by (simp add: divide_less_eq mult.commute)
qed

lemma fl_0 [simp]: "fl 0 = 0"
  by (simp add: fl_def)

lemma fl_minus: "fl (- x) = - fl x"
  by (simp add: fl_def Let_def round_even_minus)

lemma fl_pos_bounds:
  assumes "0 < x"
  shows "pow2 (ilog2 x) \<le> fl x" "fl x \<le> pow2 (ilog2 x + 1)"
proof -
  let ?e = "ilog2 x - 52"
  let ?R = "round_even (x / pow2 ?e)"
  have fl: "fl x = of_int ?R * pow2 ?e" using assms by (simp add: fl_def Let_def)
  have "2 ^ 52 \<le> ?R"
    using round_even_ge_int [of "2 ^ 52" "x / pow2 ?e"] mantissa_bounds(1) [OF assms] by simp
  then have "(2::real) ^ 52 \<le> of_int ?R" by (metis of_int_le_iff of_int_numeral of_int_power)
  then have "2 ^ 52 * pow2 ?e \<le> of_int ?R * pow2 ?e" by (simp add: mult_right_mono)
  moreover have "pow2 (ilog2 x) = 2 ^ 52 * pow2 ?e"
    using pow2_shift [of "ilog2 x - 52" 52] by simp
  ultimately show "pow2 (ilog2 x) \<le> fl x" by (simp add: fl)
  have "?R \<le> 2 ^ 53"
    using round_even_le_int [of "x / pow2 ?e" "2 ^ 53"] mantissa_bounds(2) [OF assms] by simp
  then have "of_int ?R \<le> (2::real) ^ 53" by (metis of_int_le_iff of_int_numeral of_int_power)
  then have "of_int ?R * pow2 ?e \<le> 2 ^ 53 * pow2 ?e" by (simp add: mult_right_mono)
  moreover have "pow2 (ilog2 x + 1) = 2 ^ 53 * pow2 ?e"
    using pow2_shift [of "ilog2 x - 52" 53] by (simp add: add.commute)
  ultimately show "fl x \<le> pow2 (ilog2 x + 1)" by (simp add: fl)
qed

lemma fl_pos: "0 < x \<Longrightarrow> 0 < fl x"
  using fl_pos_bounds(1) [of x] pow2_pos [of "ilog2 x"] by linarith

lemma fl_neg: "x < 0 \<Longrightarrow> fl x < 0"
  using fl_pos [of "- x"] by (simp add: fl_minus)

lemma fl_nonneg: "0 \<le> x \<Longrightarrow> 0 \<le> fl x"
  using fl_pos [of x] by (cases "x = 0") auto

lemma fl_eq_0_iff: "fl x = 0 \<longleftrightarrow> x = 0"
  using fl_pos [of x] fl_neg [of x] by (cases "x = 0"; cases "0 < x") auto

lemma fl_mono_pos:
  assumes "0 < x" "x \<le> y"
  shows "fl x \<le> fl y"
proof -
  have y: "0 < y" using assms by linarith
  show ?thesis
  proof (cases "ilog2 x = ilog2 y")
    case True
    let ?e = "ilog2 y - 52"
    have "x / pow2 ?e \<le> y / pow2 ?e"
      using assms(2) pow2_pos [of ?e] by (simp add: divide_le_cancel)
    then have "round_even (x / pow2 ?e) \<le> round_even (y / pow2 ?e)" by (rule round_even_mono)
    then have "real_of_int (round_even (x / pow2 ?e)) * pow2 ?e
               \<le> real_of_int (round_even (y / pow2 ?e)) * pow2 ?e"
      by (simp add: mult_right_mono)
    then show ?thesis using assms y True by (simp add: fl_def Let_def)
  next
    case False
    then have "ilog2 x + 1 \<le> ilog2 y" using ilog2_mono [OF assms] by linarith
    then have "pow2 (ilog2 x + 1) \<le> pow2 (ilog2 y)" by (rule pow2_mono)
    with fl_pos_bounds(2) [OF assms(1)] fl_pos_bounds(1) [OF y] show ?thesis by linarith
  qed
qed

lemma fl_mono: assumes "x \<le> y" shows "fl x \<le> fl y"
proof -
  consider "0 < x" | "x \<le> 0" "0 \<le> y" | "y < 0" by linarith
  then show ?thesis
  proof cases
    case 1
    then show ?thesis using assms by (rule fl_mono_pos)
  next
    case 2
    then have "fl x \<le> 0" "0 \<le> fl y"
      using fl_neg [of x] fl_nonneg [of y] by (cases "x = 0"; force)+
    then show ?thesis by linarith
  next
    case 3
    then have "fl (- y) \<le> fl (- x)" using assms by (intro fl_mono_pos) auto
    then show ?thesis by (simp add: fl_minus)
  qed
qed

lemma fl_fix_pos:
  assumes "0 < m" "m \<le> 2 ^ 53"
  shows "fl (of_int m * pow2 E) = of_int m * pow2 E"
proof -
  let ?x = "of_int m * pow2 E"
  have x: "0 < ?x" using assms by simp
  let ?e = "ilog2 ?x - 52"
  have "\<exists>k. ?x / pow2 ?e = of_int k"
  proof (cases "m = 2 ^ 53")
    case True
    then have xe: "?x = pow2 (E + 53)" using pow2_shift [of E 53] by simp
    have "ilog2 ?x = E + 53"
      by (rule ilog2_unique) (simp_all add: xe pow2_less_iff)
    then have "?x / pow2 ?e = pow2 (E + 53) / pow2 (E + 1)"
      unfolding xe by (simp add: add.commute)
    also have "\<dots> = pow2 (E + 53 - (E + 1))" by (simp only: pow2_diff)
    also have "\<dots> = pow2 (int 52)" by simp
    finally have "?x / pow2 ?e = of_int (2 ^ 52)" by (simp only: pow2_nat) simp
    then show ?thesis ..
  next
    case False
    with assms have "m < 2 ^ 53" by simp
    then have "real_of_int m < 2 ^ 53" by (metis of_int_less_iff of_int_numeral of_int_power)
    then have "?x < 2 ^ 53 * pow2 E" by simp
    also have "\<dots> = pow2 (E + 53)" using pow2_shift [of E 53] by simp
    finally have "pow2 (ilog2 ?x) < pow2 (E + 53)" using ilog2_bounds(1) [OF x] by linarith
    then have le: "?e \<le> E" by (simp add: pow2_less_iff)
    have "?x / pow2 ?e = of_int m * pow2 (E - ?e)" by (simp add: pow2_diff)
    also have "pow2 (E - ?e) = of_int (2 ^ nat (E - ?e))" using le by (simp add: pow2_def)
    finally have "?x / pow2 ?e = of_int (m * 2 ^ nat (E - ?e))" by simp
    then show ?thesis ..
  qed
  then obtain k where k: "?x / pow2 ?e = of_int k" ..
  then have "of_int k * pow2 ?e = ?x" by (simp add: field_simps)
  moreover have "?x \<noteq> 0" using x by linarith
  then have "fl ?x = of_int (round_even (?x / pow2 ?e)) * pow2 ?e"
    using x unfolding fl_def Let_def by (simp only: if_False abs_of_pos)
  ultimately show ?thesis by (simp add: k)
qed

lemma fl_fix:
  assumes "\<bar>m\<bar> \<le> 2 ^ 53"
  shows "fl (of_int m * pow2 E) = of_int m * pow2 E"
proof -
  consider "m = 0" | "0 < m" | "m < 0" by linarith
  then show ?thesis
  proof cases
    case 1 then show ?thesis by simp
  next
    case 2 then show ?thesis using assms by (intro fl_fix_pos) auto
  next
    case 3
    then have "fl (of_int (- m) * pow2 E) = of_int (- m) * pow2 E"
      using assms by (intro fl_fix_pos) auto
    then show ?thesis using fl_minus [of "of_int m * pow2 E"] by simp
  qed
qed

lemma fl_of_int: "\<bar>m\<bar> \<le> 2 ^ 53 \<Longrightarrow> fl (of_int m) = of_int m"
  using fl_fix [of m 0] by simp

lemma fl_shape: "\<exists>m E. \<bar>m\<bar> \<le> 2 ^ 53 \<and> fl x = of_int m * pow2 E"
proof (cases "0 < x")
  case True
  let ?e = "ilog2 x - 52"
  let ?R = "round_even (x / pow2 ?e)"
  have "?R \<le> 2 ^ 53"
    using round_even_le_int [of "x / pow2 ?e" "2 ^ 53"] mantissa_bounds(2) [OF True] by simp
  moreover have "0 \<le> ?R"
    using round_even_ge_int [of 0 "x / pow2 ?e"] True by (simp add: less_imp_le)
  moreover have "fl x = of_int ?R * pow2 ?e" using True by (simp add: fl_def Let_def)
  ultimately show ?thesis by (intro exI [of _ ?R] exI [of _ ?e]) simp
next
  case False
  show ?thesis
  proof (cases "x = 0")
    case True
    then show ?thesis by (intro exI [of _ 0]) simp
  next
    case False
    with \<open>\<not> 0 < x\<close> have x: "0 < - x" by simp
    let ?e = "ilog2 (- x) - 52"
    let ?R = "round_even (- x / pow2 ?e)"
    have "?R \<le> 2 ^ 53"
      using round_even_le_int [of "- x / pow2 ?e" "2 ^ 53"] mantissa_bounds(2) [OF x] by simp
    moreover have "real_of_int 0 \<le> - x / pow2 ?e"
      using x pow2_pos [of ?e] by (simp add: divide_le_0_iff less_imp_le)
    then have "0 \<le> ?R" by (rule round_even_ge_int)
    moreover have "fl (- x) = of_int ?R * pow2 ?e" using x by (simp add: fl_def Let_def)
    then have "fl x = of_int (- ?R) * pow2 ?e" using fl_minus [of x] by simp
    ultimately show ?thesis by (intro exI [of _ "- ?R"] exI [of _ ?e]) simp
  qed
qed

lemma fl_idem [simp]: "fl (fl x) = fl x"
  using fl_shape [of x] fl_fix by auto


section \<open>The generator never reaches \<open>0x7fffffff\<close>\<close>

lemma and_mask31: "(n::int) AND 0x7fffffff = n mod 2 ^ 31"
proof -
  have "(0x7fffffff::int) = mask 31" by (simp add: mask_eq_exp_minus_1)
  then show ?thesis by (simp only: take_bit_eq_mask [symmetric] take_bit_eq_mod)
qed

lemma to_int32_low_bits: "to_int32 (of_int n) AND 0x7fffffff = n mod 2 ^ 31"
proof -
  have fc: "(if (0::real) \<le> of_int n then \<lfloor>real_of_int n\<rfloor> else \<lceil>real_of_int n\<rceil>) = n" by simp
  have d: "(2147483648::int) dvd 4294967296" by simp
  have A: "(n mod 4294967296) mod 2147483648 = n mod (2147483648 :: int)"
    using d by (rule mod_mod_cancel)
  have "(n mod 4294967296 - 4294967296) = n mod 4294967296 + (- 2) * 2147483648" by simp
  then have "(n mod 4294967296 - 4294967296) mod 2147483648 = (n mod 4294967296) mod 2147483648"
    by (simp only: mod_mult_self1)
  with A have B: "(n mod 4294967296 - 4294967296) mod 2147483648 = n mod 2147483648" by simp
  show ?thesis
    unfolding to_int32_def Let_def fc and_mask31 using A B by (simp split: if_splits)
qed

lemma fl_of_int_even:
  assumes "2 ^ 53 \<le> n"
  shows "\<exists>k. fl (of_int n) = of_int (2 * k)"
proof -
  let ?x = "real_of_int n"
  have "(2::real) ^ 53 \<le> ?x" using assms by (metis of_int_le_iff of_int_numeral of_int_power)
  then have x53: "pow2 (int 53) \<le> ?x" by (simp only: pow2_nat)
  then have x: "0 < ?x" using pow2_pos [of "int 53"] by linarith
  have "pow2 (int 53) < pow2 (ilog2 ?x + 1)" using x53 ilog2_bounds(2) [OF x] by linarith
  then have e: "1 \<le> ilog2 ?x - 52" by (simp add: pow2_less_iff)
  let ?e = "ilog2 ?x - 52"
  let ?R = "round_even (?x / pow2 ?e)"
  have "pow2 ?e = pow2 (1 + int (nat (?e - 1)))" using e by simp
  also have "\<dots> = 2 * 2 ^ nat (?e - 1)" by (simp only: pow2_add pow2_nat) (simp add: pow2_def)
  finally have "pow2 ?e = of_int (2 * 2 ^ nat (?e - 1))" by simp
  moreover have "?x \<noteq> 0" using x by linarith
  then have "fl ?x = of_int ?R * pow2 ?e"
    using x unfolding fl_def Let_def by (simp only: if_False abs_of_pos)
  ultimately have "fl ?x = of_int (2 * (?R * 2 ^ nat (?e - 1)))" by simp
  then show ?thesis ..
qed

lemma lcg_congruence:
  fixes s :: int
  assumes "0 \<le> s" "s \<le> 8162278"
  shows "(s * 1103515245 + 12345) mod 2 ^ 31 \<noteq> 2147483647"
proof
  define N where "N = s * 1103515245 + 12345"
  assume "(s * 1103515245 + 12345) mod 2 ^ 31 = 2147483647"
  then have h: "N mod 2147483648 = 2147483647" by (simp add: N_def)
  have "(N * 1857678181) mod 2147483648 = ((N mod 2147483648) * 1857678181) mod 2147483648"
    by (simp only: mod_mult_left_eq)
  also have "\<dots> = 289805467" unfolding h by simp
  finally have 1: "(N * 1857678181) mod 2147483648 = 289805467" .
  have "N * 1857678181 = (s + 59267453) + (s * 954594553 + 10679) * 2147483648"
    by (simp add: N_def algebra_simps)
  then have "(N * 1857678181) mod 2147483648 = (s + 59267453) mod 2147483648"
    by (simp only: mod_mult_self1)
  with 1 have "(s + 59267453) mod 2147483648 = 289805467" by simp
  moreover have "(s + 59267453) mod 2147483648 = s + 59267453"
    using assms by (intro mod_pos_pos_trivial) auto
  ultimately show False using assms by linarith
qed

lemma even_mod_neq_max: "(2 * k) mod 2 ^ 31 \<noteq> (2147483647::int)"
proof
  assume h: "(2 * k) mod 2 ^ 31 = (2147483647::int)"
  have "(2 * k) mod (2 * 1073741824) = 2 * (k mod 1073741824)"
    by (simp only: mult_mod_right)
  with h have "2 * (k mod 1073741824) = 2147483647" by simp
  then show False by presburger
qed

lemma lcg_cases:
  "(\<exists>k. lcg s = nat ((2 * k) mod 2 ^ 31)) \<or>
   (int s \<le> 8162278 \<and> lcg s = nat ((int s * 1103515245 + 12345) mod 2 ^ 31))"
proof -
  define n1 where "n1 = int s * 1103515245"
  have n1: "0 \<le> n1" by (simp add: n1_def)
  have p: "fmul (real s) 1103515245 = fl (of_int n1)" by (simp add: fmul_def n1_def)
  have low: "lcg s = nat (m mod 2 ^ 31)" if "fadd (fmul (real s) 1103515245) 12345 = of_int m" for m
    unfolding lcg_def that to_int32_low_bits ..
  show ?thesis
  proof (cases "n1 + 12345 < 2 ^ 53")
    case True
    then have "fl (of_int n1) = of_int n1" using n1 by (intro fl_of_int) simp
    moreover have "fl (of_int (n1 + 12345)) = of_int (n1 + 12345)"
      using True n1 by (intro fl_of_int) simp
    ultimately have "fadd (fmul (real s) 1103515245) 12345 = of_int (n1 + 12345)"
      by (simp add: p fadd_def)
    then have "lcg s = nat ((n1 + 12345) mod 2 ^ 31)" by (rule low)
    moreover have "int s \<le> 8162278" using True by (simp add: n1_def)
    ultimately show ?thesis by (simp add: n1_def)
  next
    case False
    have "\<exists>j. fl (of_int n1) = of_int j \<and> 2 ^ 53 \<le> j + 12345"
    proof (cases "n1 < 2 ^ 53")
      case True
      then have "fl (of_int n1) = of_int n1" using n1 by (intro fl_of_int) simp
      with False show ?thesis by (intro exI [of _ n1]) simp
    next
      case big: False
      then obtain k where k: "fl (of_int n1) = of_int (2 * k)"
        using fl_of_int_even [of n1] by auto
      have "fl (of_int (2 ^ 53)) \<le> fl (of_int n1)"
        using big by (intro fl_mono) simp
      moreover have "fl (of_int (2 ^ 53)) = of_int (2 ^ 53)" by (intro fl_of_int) simp
      ultimately have "real_of_int (2 ^ 53) \<le> of_int (2 * k)" using k by simp
      then have "2 ^ 53 \<le> 2 * k" by (simp only: of_int_le_iff)
      with k show ?thesis by (intro exI [of _ "2 * k"]) simp
    qed
    then obtain j where j: "fl (of_int n1) = of_int j" "2 ^ 53 \<le> j + 12345" by auto
    obtain k where "fl (of_int (j + 12345)) = of_int (2 * k)"
      using fl_of_int_even [OF j(2)] by auto
    then have "fadd (fmul (real s) 1103515245) 12345 = of_int (2 * k)"
      by (simp add: p j fadd_def)
    then have "lcg s = nat ((2 * k) mod 2 ^ 31)" by (rule low)
    then show ?thesis by blast
  qed
qed

lemma lcg_less: "lcg s < 2147483648"
  unfolding lcg_def and_mask31 by (simp add: nat_less_iff)

lemma lcg_neq_max: "lcg s \<noteq> 2147483647"
proof
  assume h: "lcg s = 2147483647"
  from lcg_cases [of s] show False
  proof (elim disjE exE conjE)
    fix k assume "lcg s = nat ((2 * k) mod 2 ^ 31)"
    with h have "(2 * k) mod 2 ^ 31 = (2147483647::int)" by simp
    then show False using even_mod_neq_max by blast
  next
    assume s: "int s \<le> 8162278"
      and "lcg s = nat ((int s * 1103515245 + 12345) mod 2 ^ 31)"
    with h have "(int s * 1103515245 + 12345) mod 2 ^ 31 = (2147483647::int)" by simp
    then show False using lcg_congruence [of "int s"] s by simp
  qed
qed

lemma lcg_le: "lcg s \<le> 2147483646"
  using lcg_less [of s] lcg_neq_max [of s] by linarith

lemma unit_draw_nonneg: "0 \<le> fdiv (real (lcg s)) 0x7fffffff"
  unfolding fdiv_def by (intro fl_nonneg) simp



lemma rng_integers_lower:
  assumes "mn \<le> mx" "\<bar>mn\<bar> \<le> 2 ^ 53"
  shows "mn \<le> fst (rng_integers (of_int mn) (of_int mx) st)"
proof -
  define k where "k = fadd (fsub (of_int mx) (of_int mn)) 1"
  have "0 \<le> fsub (real_of_int mx) (of_int mn)"
    unfolding fsub_def using assms by (intro fl_nonneg) simp
  then have k: "0 \<le> k" unfolding k_def fadd_def by (intro fl_nonneg) simp
  have "0 \<le> fmul k (real (lcg st))" unfolding fmul_def using k by (intro fl_nonneg) simp
  then have q: "0 \<le> fdiv (fmul k (real (lcg st))) 0x7fffffff"
    unfolding fdiv_def by (intro fl_nonneg) simp
  have "fl (of_int mn) \<le> fadd (of_int mn) (fdiv (fmul k (real (lcg st))) 0x7fffffff)"
    unfolding fadd_def using q by (intro fl_mono) simp
  moreover have "fl (of_int mn) = of_int mn" using assms by (intro fl_of_int)
  ultimately have "mn \<le> \<lfloor>fadd (of_int mn) (fdiv (fmul k (real (lcg st))) 0x7fffffff)\<rfloor>"
    by (simp add: le_floor_iff)
  then show ?thesis by (simp add: rng_integers_def Let_def k_def)
qed

lemma rng_integers_upper:
  assumes "mn \<le> mx" "\<bar>mn\<bar> \<le> 2 ^ 20" "\<bar>mx\<bar> \<le> 2 ^ 20"
  shows "fst (rng_integers (of_int mn) (of_int mx) st) \<le> mx"
proof -
  define k where "k = mx - mn + 1"
  define s' where "s' = int (lcg st)"
  have k: "1 \<le> k" "k \<le> 2 ^ 21 + 1" using assms by (simp_all add: k_def)
  have s': "0 \<le> s'" "s' \<le> 2147483646" using lcg_le [of st] by (simp_all add: s'_def)
  have "fsub (real_of_int mx) (of_int mn) = fl (of_int (mx - mn))" by (simp add: fsub_def)
  also have "\<dots> = of_int (mx - mn)" using assms by (intro fl_of_int) simp
  finally have "fadd (fsub (real_of_int mx) (of_int mn)) 1 = fl (of_int k)"
    by (simp add: fadd_def k_def)
  also have "\<dots> = of_int k" using k by (intro fl_of_int) simp
  finally have kk: "fadd (fsub (real_of_int mx) (of_int mn)) 1 = of_int k" .
  have "k * s' \<le> (2 ^ 21 + 1) * 2147483646"
    using k s' by (intro mult_mono) simp_all
  then have ks: "0 \<le> k * s'" "k * s' \<le> 4503601770659838"
    using k s' by simp_all
  have "fmul (of_int k) (real (lcg st)) = fl (of_int (k * s'))" by (simp add: fmul_def s'_def)
  also have "\<dots> = of_int (k * s')" using ks by (intro fl_of_int) simp
  finally have P: "fmul (of_int k) (real (lcg st)) = of_int (k * s')" .
  have c1: "fl (of_int (k * 2147483647) * pow2 (- 31)) = of_int (k * 2147483647) * pow2 (- 31)"
    using k by (intro fl_fix) simp
  have "real_of_int s' / 2147483647 \<le> 2147483647 / 2147483648" using s' by simp
  then have "real_of_int k * (real_of_int s' / 2147483647) \<le> real_of_int k * (2147483647 / 2147483648)"
    using k by (intro mult_left_mono) simp_all
  then have "real_of_int (k * s') / 0x7fffffff \<le> of_int (k * 2147483647) * pow2 (- 31)"
    by (simp add: pow2_def)
  then have "fdiv (of_int (k * s')) 0x7fffffff \<le> fl (of_int (k * 2147483647) * pow2 (- 31))"
    unfolding fdiv_def by (rule fl_mono)
  then have q: "fdiv (of_int (k * s')) 0x7fffffff \<le> of_int (k * 2147483647) * pow2 (- 31)"
    by (simp only: c1)
  define c2 where "c2 = mn * 2 ^ 31 + k * 2147483647"
  have c2v: "real_of_int mn + of_int (k * 2147483647) * pow2 (- 31) = of_int c2 * pow2 (- 31)"
    by (simp add: c2_def pow2_def field_simps)
  have "c2 = (mx + 1) * 2 ^ 31 - k" by (simp add: c2_def k_def algebra_simps)
  then have "\<bar>c2\<bar> \<le> 2 ^ 53" using assms k by simp
  then have c2f: "fl (of_int c2 * pow2 (- 31)) = of_int c2 * pow2 (- 31)" by (rule fl_fix)
  have "fadd (of_int mn) (fdiv (of_int (k * s')) 0x7fffffff) \<le> fl (of_int c2 * pow2 (- 31))"
    unfolding fadd_def using q c2v by (intro fl_mono) simp
  also have "\<dots> = of_int c2 * pow2 (- 31)" by (rule c2f)
  also have "\<dots> < of_int (mx + 1)"
    using k \<open>c2 = (mx + 1) * 2 ^ 31 - k\<close> by (simp add: pow2_def field_simps)
  finally have "\<lfloor>fadd (of_int mn) (fdiv (of_int (k * s')) 0x7fffffff)\<rfloor> < mx + 1"
    by (simp only: floor_less_iff)
  then show ?thesis by (simp add: rng_integers_def Let_def kk P)
qed

section \<open>Evaluation of concrete draws\<close>

lemmas fl_eval = fl_def ilog2_def round_even_def pow2_def Let_def compute_bitlen
  fadd_def fsub_def fmul_def fdiv_def

lemma lcg_mod: "lcg s = nat (to_int32 (fadd (fmul (real s) 1103515245) 12345) mod 2 ^ 31)"
  by (simp add: lcg_def and_mask31)

lemma lcg_42: "lcg 42 = 1250496027"
  by (simp add: lcg_mod to_int32_def fl_eval)

text \<open>With exact integer arithmetic the state \<open>230538014\<close> would be followed by
  \<open>0x7fffffff\<close>; the binary64 product is rounded to a multiple of 32 and the next state
  is \<open>0\<close>.\<close>

lemma lcg_230538014: "lcg 230538014 = 0"
  by (simp add: lcg_mod to_int32_def fl_eval)

section \<open>The error object\<close>

lemma check_farmType_dom_mono: "dom e \<subseteq> dom (check_farmType idx ft e)"
  by (auto simp: check_farmType_def Let_def)

lemma check_farmTypes_dom_mono: "dom e \<subseteq> dom (check_farmTypes idx fts e)"
proof (induction fts arbitrary: idx e)
  case Nil
  then show ?case by simp
next
  case (Cons ft fts)
  show ?case using check_farmType_dom_mono [of e idx ft] Cons.IH [of "check_farmType idx ft e" "Suc idx"]
    by auto
qed



lemma field_errors_keys:
  "(lastYearCost s \<le> 0 \<longrightarrow> K_lastYearCost \<in> dom (field_errors s)) \<and>
   (lastYearFarms s \<le> 0 \<longrightarrow> K_lastYearFarms \<in> dom (field_errors s)) \<and>
   (minNewFarms s \<le> 0 \<longrightarrow> K_minNewFarms \<in> dom (field_errors s)) \<and>
   (maxNewFarms s \<le> 0 \<longrightarrow> K_maxNewFarms \<in> dom (field_errors s)) \<and>
   (minNewFarms s > maxNewFarms s \<longrightarrow> K_minNewFarms \<in> dom (field_errors s)) \<and>
   (trials s \<le> 0 \<or> trials s > 200000 \<longrightarrow> K_trials \<in> dom (field_errors s)) \<and>
   (\<bar>fsub (totalShare (farmTypes s)) 100\<bar> > 1/2 \<longrightarrow> K_farmTypes \<in> dom (field_errors s))"
  by (simp add: field_errors_def Let_def)






section \<open>Sorting and indices\<close>

lemma fsub_neg_iff [simp]: "fsub x y < 0 \<longleftrightarrow> x < y"
proof -
  have "fl (x - y) < 0 \<longleftrightarrow> x - y < 0"
    using fl_neg [of "x - y"] fl_nonneg [of "x - y"] by (cases "x - y < 0") auto
  then show ?thesis by (simp add: fsub_def)
qed

lemma mset_js_insert: "mset (js_insert x ys) = add_mset x (mset ys)"
  by (induction ys) simp_all

lemma mset_js_sort: "mset (js_sort xs) = mset xs"
  by (induction xs) (simp_all add: js_sort_def mset_js_insert)

lemma length_js_sort: "length (js_sort xs) = length xs"
  using mset_js_sort [of xs] by (metis size_mset)

lemma js_insert_fin:
  assumes "sorted ys"
  shows "\<exists>zs. js_insert (Fin x) (map Fin ys) = map Fin zs \<and> sorted zs \<and>
              mset zs = add_mset x (mset ys)"
  using assms
proof (induction ys)
  case Nil
  show ?case by (intro exI [of _ "[x]"]) simp
next
  case (Cons y ys)
  show ?case
  proof (cases "x < y")
    case True
    with Cons.prems show ?thesis by (intro exI [of _ "x # y # ys"]) auto
  next
    case False
    from Cons.prems have "sorted ys" by simp
    from Cons.IH [OF this] obtain zs where
      zs: "js_insert (Fin x) (map Fin ys) = map Fin zs" "sorted zs" "mset zs = add_mset x (mset ys)"
      by blast
    from zs(3) have "set zs = insert x (set ys)" by (metis set_mset_add_mset_insert set_mset_mset)
    with Cons.prems False zs have "sorted (y # zs)" by auto
    with False zs show ?thesis by (intro exI [of _ "y # zs"]) simp
  qed
qed

lemma js_sort_fin:
  "\<exists>zs. js_sort (map Fin xs) = map Fin zs \<and> sorted zs \<and> mset zs = mset xs"
proof (induction xs)
  case Nil
  show ?case by (simp add: js_sort_def)
next
  case (Cons x xs)
  then obtain zs where zs: "js_sort (map Fin xs) = map Fin zs" "sorted zs" "mset zs = mset xs"
    by blast
  from js_insert_fin [OF zs(2), of x] obtain ws where
    "js_insert (Fin x) (map Fin zs) = map Fin ws" "sorted ws" "mset ws = add_mset x (mset zs)"
    by blast
  with zs show ?case by (intro exI [of _ ws]) (simp add: js_sort_def)
qed

lemma all_fin_map: "(\<forall>v \<in> set svs. \<exists>a. v = Fin a) \<Longrightarrow> \<exists>xs. svs = map Fin xs"
proof (induction svs)
  case Nil
  then show ?case by simp
next
  case (Cons v svs)
  then obtain a xs where "v = Fin a" "svs = map Fin xs" by auto
  then have "v # svs = map Fin (a # xs)" by simp
  then show ?case ..
qed

lemma js_sort_sorted:
  assumes "\<forall>v \<in> set svs. \<exists>a. v = Fin a"
  shows "sorted_wrt (\<lambda>a b. \<not> jlt b a) (js_sort svs)"
proof -
  from all_fin_map [OF assms] obtain xs where xs: "svs = map Fin xs" by blast
  from js_sort_fin [of xs] obtain zs where
    zs: "js_sort (map Fin xs) = map Fin zs" "sorted zs" "mset zs = mset xs" by blast
  have "sorted_wrt (\<lambda>a b. \<not> jlt b a) (map Fin zs)"
    using zs(2) by (simp add: sorted_wrt_map not_less)
  then show ?thesis by (simp add: xs zs(1))
qed


lemma fl_half: "fl (1/2) = 1/2"
  using fl_fix [of 1 "- 1"] by (simp add: pow2_def)

lemma fl_tenth_bounds: "0 < fl (1/10)" "fl (1/10) \<le> 1/2"
  using fl_pos [of "1/10"] fl_mono [of "1/10" "1/2"] by (simp_all add: fl_half)

lemma fl_nine_tenths_bounds: "0 < fl (9/10)" "fl (9/10) \<le> 15/16"
proof -
  show "0 < fl (9/10)" using fl_pos [of "9/10"] by simp
  have "fl (15/16) = 15/16" using fl_fix [of 15 "- 4"] by (simp add: pow2_def)
  then show "fl (9/10) \<le> 15/16" using fl_mono [of "9/10" "15/16"] by simp
qed

lemma half_index:
  assumes "n < 2 ^ 32"
  shows "\<lfloor>fdiv (real n) 2\<rfloor> = int (n div 2)"
proof -
  have r: "real n / 2 = of_int (int n) * pow2 (- 1)" by (simp add: pow2_def)
  have "fl (of_int (int n) * pow2 (- 1)) = of_int (int n) * pow2 (- 1)"
    using assms by (intro fl_fix) simp
  then have e: "fdiv (real n) 2 = real n / 2" unfolding fdiv_def r .
  have "\<lfloor>real n / real 2\<rfloor> = int (n div 2)" by (rule floor_divide_of_nat_eq)
  then show ?thesis unfolding e by simp
qed

lemma nth_opt_in_range: "0 \<le> i \<Longrightarrow> i < int (length xs) \<Longrightarrow> nth_opt xs i = Some (xs ! nat i)"
  by (simp add: nth_opt_def)

lemma scaled_index:
  assumes "0 < n" "n < 2 ^ 32" "0 < c" "c \<le> 15/16"
  shows "0 \<le> \<lfloor>fmul (real n) c\<rfloor>" "\<lfloor>fmul (real n) c\<rfloor> < int n"
proof -
  have "0 \<le> fmul (real n) c" unfolding fmul_def using assms by (intro fl_nonneg) simp
  then show "0 \<le> \<lfloor>fmul (real n) c\<rfloor>" by simp
  have r: "real n * (15/16) = of_int (15 * int n) * pow2 (- 4)" by (simp add: pow2_def)
  have "fl (of_int (15 * int n) * pow2 (- 4)) = of_int (15 * int n) * pow2 (- 4)"
    using assms by (intro fl_fix) simp
  then have f: "fl (real n * (15/16)) = real n * (15/16)" unfolding r .
  have "real n * c \<le> real n * (15/16)" using assms by (intro mult_left_mono) simp_all
  then have "fmul (real n) c \<le> fl (real n * (15/16))" unfolding fmul_def by (rule fl_mono)
  also have "\<dots> < real n" using assms f by simp
  finally show "\<lfloor>fmul (real n) c\<rfloor> < int n" by (simp add: floor_less_iff)
qed

section \<open>The histogram\<close>

lemma jmin2_fin [simp]: "jmin2 (Fin a) (Fin b) = Fin (min a b)"
  by (simp add: min_def)

lemma jmax2_fin [simp]: "jmax2 (Fin a) (Fin b) = Fin (max a b)"
  by (simp add: max_def)

lemma foldl_jmin2_fin: "foldl jmin2 (Fin a) (map Fin xs) = Fin (Min (insert a (set xs)))"
proof (induction xs arbitrary: a)
  case Nil
  show ?case by simp
next
  case (Cons x xs)
  have "foldl jmin2 (Fin a) (map Fin (x # xs)) = foldl jmin2 (Fin (min a x)) (map Fin xs)"
    by (simp add: min_def)
  also have "\<dots> = Fin (Min (insert (min a x) (set xs)))" by (rule Cons.IH)
  also have "Min (insert (min a x) (set xs)) = Min (insert a (set (x # xs)))"
    by (cases "set xs = {}") (simp_all add: min.assoc)
  finally show ?case .
qed

lemma foldl_jmax2_fin: "foldl jmax2 (Fin a) (map Fin xs) = Fin (Max (insert a (set xs)))"
proof (induction xs arbitrary: a)
  case Nil
  show ?case by simp
next
  case (Cons x xs)
  have "foldl jmax2 (Fin a) (map Fin (x # xs)) = foldl jmax2 (Fin (max a x)) (map Fin xs)"
    by (simp add: max_def)
  also have "\<dots> = Fin (Max (insert (max a x) (set xs)))" by (rule Cons.IH)
  also have "Max (insert (max a x) (set xs)) = Max (insert a (set (x # xs)))"
    by (cases "set xs = {}") (simp_all add: max.assoc)
  finally show ?case .
qed

lemma jmin_list_fin: "xs \<noteq> [] \<Longrightarrow> jmin_list (map Fin xs) = Fin (Min (set xs))"
  by (cases xs) (simp_all add: jmin_list_def foldl_jmin2_fin)

lemma jmax_list_fin: "xs \<noteq> [] \<Longrightarrow> jmax_list (map Fin xs) = Fin (Max (set xs))"
  by (cases xs) (simp_all add: jmax_list_def foldl_jmax2_fin)



lemma foldl_bump_nan:
  assumes "\<forall>sv \<in> set svs. idx sv = NaN"
  shows "foldl (\<lambda>b sv. bump b (idx sv)) bins svs = bins"
  using assms by (induction svs arbitrary: bins) (simp_all add: bump_def)


lemma degenerate_bins:
  assumes "svs \<noteq> []" "\<forall>sv \<in> set svs. sv = Fin v"
  shows "createHistogramData svs
           = map (\<lambda>i. \<lparr> bin_savings = jround (Fin (fl v)), bin_count = 0 \<rparr>) [0..<40]"
proof -
  have "svs = map Fin (replicate (length svs) v)"
    using assms(2) by (intro nth_equalityI) simp_all
  moreover have "replicate (length svs) v \<noteq> []" using assms(1) by simp
  ultimately have mn: "jmin_list svs = Fin v" and mx: "jmax_list svs = Fin v"
    using jmin_list_fin [of "replicate (length svs) v"] jmax_list_fin [of "replicate (length svs) v"]
      assms(1) by simp_all
  have z: "fsub v v = 0" "fdiv 0 40 = 0" by (simp_all add: fsub_def fdiv_def)
  have "bin_index (Fin v) (Fin 0) (Fin v) = NaN" by (simp add: bin_index_def fsub_def)
  then have "\<forall>sv \<in> set svs. bin_index (Fin v) (Fin 0) sv = NaN"
    using assms(2) by metis
  then have bins: "foldl (\<lambda>b sv. bump b (bin_index (Fin v) (Fin 0) sv)) (replicate 40 0) svs
                    = replicate 40 0"
    by (rule foldl_bump_nan)
  show ?thesis
    unfolding createHistogramData_def Let_def
    by (simp add: mn mx z bins fmul_def fadd_def del: upt_rec_numeral)
qed

section \<open>The trial loop\<close>

lemma valid_fields:
  assumes "snd (validateScenario s)"
  shows "0 < lastYearCost s" "0 < lastYearFarms s" "0 < minNewFarms s" "0 < maxNewFarms s"
    "minNewFarms s \<le> maxNewFarms s" "0 < trials s" "trials s \<le> 200000"
    "\<bar>fsub (totalShare (farmTypes s)) 100\<bar> \<le> 1/2"
proof -
  have "dom (check_farmTypes 0 (farmTypes s) (field_errors s)) = {}"
    using assms by (simp add: validateScenario_def Let_def)
  then have "dom (field_errors s) = {}"
    using check_farmTypes_dom_mono [of "field_errors s" 0 "farmTypes s"] by auto
  then show "0 < lastYearCost s" "0 < lastYearFarms s" "0 < minNewFarms s" "0 < maxNewFarms s"
    "minNewFarms s \<le> maxNewFarms s" "0 < trials s" "trials s \<le> 200000"
    "\<bar>fsub (totalShare (farmTypes s)) 100\<bar> \<le> 1/2"
    using field_errors_keys [of s] by (auto simp: not_le not_less)
qed


lemma rng_integers_pos:
  assumes "1 \<le> mn" "mn \<le> mx"
  shows "1 \<le> fst (rng_integers (of_int mn) (of_int mx) st)"
proof -
  define k where "k = fadd (fsub (of_int mx) (of_int mn)) 1"
  have "0 \<le> fsub (real_of_int mx) (of_int mn)"
    unfolding fsub_def using assms by (intro fl_nonneg) simp
  then have k: "0 \<le> k" unfolding k_def fadd_def by (intro fl_nonneg) simp
  have "0 \<le> fmul k (real (lcg st))" unfolding fmul_def using k by (intro fl_nonneg) simp
  then have q: "0 \<le> fdiv (fmul k (real (lcg st))) 0x7fffffff"
    unfolding fdiv_def by (intro fl_nonneg) simp
  have "fl (of_int 1) \<le> fadd (of_int mn) (fdiv (fmul k (real (lcg st))) 0x7fffffff)"
    unfolding fadd_def using q assms by (intro fl_mono) simp
  moreover have "fl (of_int 1) = of_int 1" by (intro fl_of_int) simp
  ultimately have "1 \<le> \<lfloor>fadd (of_int mn) (fdiv (fmul k (real (lcg st))) 0x7fffffff)\<rfloor>"
    by (simp add: le_floor_iff)
  then show ?thesis by (simp add: rng_integers_def Let_def k_def)
qed

lemma length_draw_multipliers: "length (fst (draw_multipliers j n pc st)) = j"
  by (induction j arbitrary: st) (simp_all add: Let_def case_prod_beta)

lemma farm_loop_draw:
  "farm_loop j n pc st acc =
     (foldl (\<lambda>acc m. jadd acc (jmul m (avgPriceLastYear pc))) acc (fst (draw_multipliers j n pc st)),
      snd (draw_multipliers j n pc st))"
  by (induction j arbitrary: st acc) (simp_all add: Let_def case_prod_beta)

lemma run_trial_spec:
  "fst (run_trial s (precompute s) st) =
     spec_trial_savings s (fst (rng_integers (of_int (minNewFarms s)) (of_int (maxNewFarms s)) st))
       (fst (draw_multipliers
              (nat (fst (rng_integers (of_int (minNewFarms s)) (of_int (maxNewFarms s)) st)))
              (length (farmTypes s)) (precompute s)
              (snd (rng_integers (of_int (minNewFarms s)) (of_int (maxNewFarms s)) st))))"
  by (simp add: run_trial_def spec_trial_savings_def farm_loop_draw Let_def precompute_def
      case_prod_beta)

lemma length_trial_loop: "length (trial_loop k s pc st) = k"
  by (induction k arbitrary: st) (simp_all add: Let_def case_prod_beta)

lemma trial_loop_nth:
  "i < k \<Longrightarrow> trial_loop k s pc st ! i
     = fst (run_trial s pc (((\<lambda>state. snd (run_trial s pc state)) ^^ i) st))"
proof (induction k arbitrary: i st)
  case 0
  then show ?case by simp
next
  case (Suc k)
  define F where "F = (\<lambda>state. snd (run_trial s pc state))"
  show ?case
  proof (cases i)
    case 0
    then show ?thesis by (simp add: Let_def case_prod_beta)
  next
    case (Suc i')
    with Suc.prems have "i' < k" by simp
    from Suc.IH [OF this, of "F st"]
    have IH: "trial_loop k s pc (F st) ! i' = fst (run_trial s pc ((F ^^ i') (F st)))"
      by (simp add: F_def)
    have "(F ^^ Suc i') st = (F ^^ i') (F st)" by (simp add: funpow_swap1)
    with IH have "trial_loop k s pc (F st) ! i' = fst (run_trial s pc ((F ^^ Suc i') st))"
      by simp
    moreover have "trial_loop (Suc k) s pc st ! Suc i' = trial_loop k s pc (F st) ! i'"
      by (simp add: Let_def case_prod_beta F_def)
    ultimately show ?thesis unfolding Suc F_def by simp
  qed
qed

section \<open>A validated trial is finite\<close>

lemma choice_loop_range:
  "choice_loop r ps i k c = Some j \<Longrightarrow> i \<le> j \<and> j < i + k"
proof (induction k arbitrary: i c)
  case 0
  then show ?case by simp
next
  case (Suc k)
  show ?case
  proof (cases "jlt (Fin r) (jadd c (nth_num ps (int i)))")
    case True
    with Suc.prems show ?thesis by (simp add: Let_def)
  next
    case False
    with Suc.prems have "choice_loop r ps (Suc i) k (jadd c (nth_num ps (int i))) = Some j"
      by (simp add: Let_def)
    from Suc.IH [OF this] show ?thesis by simp
  qed
qed

lemma rng_choice_range:
  assumes "0 < n"
  shows "0 \<le> fst (rng_choice n ps st)" "fst (rng_choice n ps st) < int n"
proof -
  let ?r = "fdiv (real (lcg st)) 0x7fffffff"
  have "0 \<le> fst (rng_choice n ps st) \<and> fst (rng_choice n ps st) < int n"
  proof (cases "choice_loop ?r ps 0 n (Fin 0)")
    case None
    then show ?thesis using assms by (simp add: rng_choice_def Let_def)
  next
    case (Some j)
    from choice_loop_range [OF this] Some show ?thesis by (simp add: rng_choice_def Let_def)
  qed
  then show "0 \<le> fst (rng_choice n ps st)" "fst (rng_choice n ps st) < int n" by auto
qed






lemma nth_opt_0 [simp]: "nth_opt (x # xs) 0 = Some x"
  by (simp add: nth_opt_def)


section \<open>The constant-discount scenario\<close>

lemma funpow_unroll: "(f ^^ numeral k) x = f ((f ^^ pred_numeral k) x)"
  by (simp add: numeral_eq_Suc)

lemma foldl_replicate_add:
  "foldl (\<lambda>acc m. jadd acc (jmul m (Fin av))) (Fin a) (replicate j (Fin m))
     = Fin ((add_to (fmul m av) ^^ j) a)"
proof (induction j arbitrary: a)
  case 0
  show ?case by simp
next
  case (Suc j)
  have "foldl (\<lambda>acc m. jadd acc (jmul m (Fin av))) (Fin a) (replicate (Suc j) (Fin m))
          = foldl (\<lambda>acc m. jadd acc (jmul m (Fin av))) (Fin (add_to (fmul m av) a)) (replicate j (Fin m))"
    by (simp add: add_to_def)
  also have "\<dots> = Fin ((add_to (fmul m av) ^^ j) (add_to (fmul m av) a))" by (rule Suc.IH)
  also have "(add_to (fmul m av) ^^ j) (add_to (fmul m av) a) = (add_to (fmul m av) ^^ Suc j) a"
    by (simp add: funpow_swap1)
  finally show ?case .
qed

lemma foldl_replicate_sum:
  "foldl jadd (Fin a) (replicate n (Fin v)) = Fin ((add_to v ^^ n) a)"
proof (induction n arbitrary: a)
  case 0
  show ?case by simp
next
  case (Suc n)
  have "foldl jadd (Fin a) (replicate (Suc n) (Fin v)) = foldl jadd (Fin (add_to v a)) (replicate n (Fin v))"
    by (simp add: add_to_def)
  also have "\<dots> = Fin ((add_to v ^^ n) (add_to v a))" by (rule Suc.IH)
  also have "(add_to v ^^ n) (add_to v a) = (add_to v ^^ Suc n) a" by (simp add: funpow_swap1)
  finally show ?case .
qed

lemma foldl_replicate_squares:
  "foldl (\<lambda>sum val. jadd sum (jsquare (jsub val (Fin m)))) (Fin a) (replicate n (Fin v))
     = Fin ((add_to (fmul (fsub v m) (fsub v m)) ^^ n) a)"
proof (induction n arbitrary: a)
  case 0
  show ?case by simp
next
  case (Suc n)
  let ?d2 = "fmul (fsub v m) (fsub v m)"
  have "foldl (\<lambda>sum val. jadd sum (jsquare (jsub val (Fin m)))) (Fin a) (replicate (Suc n) (Fin v))
          = foldl (\<lambda>sum val. jadd sum (jsquare (jsub val (Fin m)))) (Fin (add_to ?d2 a)) (replicate n (Fin v))"
    by (simp add: add_to_def)
  also have "\<dots> = Fin ((add_to ?d2 ^^ n) (add_to ?d2 a))" by (rule Suc.IH)
  also have "(add_to ?d2 ^^ n) (add_to ?d2 a) = (add_to ?d2 ^^ Suc n) a" by (simp add: funpow_swap1)
  finally show ?case .
qed

lemma rng_uniform_const:
  assumes "fl m = m"
  shows "fst (rng_uniform (Fin m) (Fin m) st) = Fin m"
  by (simp add: rng_uniform_def Let_def fsub_def fmul_def fadd_def assms)

lemma js_insert_replicate: "js_insert (Fin v) (replicate n (Fin v)) = replicate (Suc n) (Fin v)"
  by (induction n) (simp_all add: fsub_def)

lemma js_sort_replicate: "js_sort (replicate n (Fin v)) = replicate n (Fin v)"
proof (induction n)
  case 0
  show ?case by (simp add: js_sort_def)
next
  case (Suc n)
  have "js_sort (replicate (Suc n) (Fin v)) = js_insert (Fin v) (js_sort (replicate n (Fin v)))"
    by (simp add: js_sort_def)
  then show ?case by (simp only: Suc.IH js_insert_replicate)
qed



lemma c8_precompute:
  "precompute constant_discount_case =
     \<lparr> avgPriceLastYear = Fin (4581298449066667 / 137438953472),
       probs = [Fin 1],
       minMult = [Fin (8106479329266893 / 9007199254740992)],
       maxMult = [Fin (8106479329266893 / 9007199254740992)] \<rparr>"
  by (simp add: precompute_def constant_discount_case_def Let_def fl_eval)

lemma c8_multiplier_fixed: "fl (8106479329266893 / 9007199254740992) = 8106479329266893 / 9007199254740992"
  using fl_fix [of 8106479329266893 "- 53"] by (simp add: pow2_def)

lemma c8_term: "fmul (8106479329266893 / 9007199254740992) (4581298449066667 / 137438953472)
                  = 8246337208320001 / 274877906944"
  by (simp add: fl_eval)

lemma c8_partial: "(add_to (8246337208320001 / 274877906944) ^^ 30) 0 = 7730941132800001 / 8589934592"
  by (simp add: funpow_unroll add_to_def fl_eval)

lemma c8_saving: "fsub 1000000 (fmul (7730941132800001 / 8589934592) (fdiv 30 30))
                    = 858993459199999 / 8589934592"
  by (simp add: fl_eval)

lemma c8_draw:
  "fst (draw_multipliers j (Suc 0) (precompute constant_discount_case) st)
     = replicate j (Fin (8106479329266893 / 9007199254740992))"
proof (induction j arbitrary: st)
  case 0
  show ?case by simp
next
  case (Suc j)
  let ?pc = "precompute constant_discount_case"
  have "0 \<le> fst (rng_choice (Suc 0) (probs ?pc) st)"
       "fst (rng_choice (Suc 0) (probs ?pc) st) < int (Suc 0)"
    by (rule rng_choice_range; simp)+
  then have idx: "fst (rng_choice (Suc 0) (probs ?pc) st) = 0" by simp
  have lo: "nth_num (minMult ?pc) 0 = Fin (8106479329266893 / 9007199254740992)"
       "nth_num (maxMult ?pc) 0 = Fin (8106479329266893 / 9007199254740992)"
    by (simp_all add: c8_precompute nth_num_def)
  show ?case
    by (simp add: Let_def case_prod_beta idx lo rng_uniform_const [OF c8_multiplier_fixed] Suc.IH)
qed

lemma c8_nFarms: "fst (rng_integers (real_of_int 30) (real_of_int 30) st) = 30"
  using rng_integers_lower [of 30 30 st] rng_integers_upper [of 30 30 st] by simp

lemma c8_run_trial:
  "fst (run_trial constant_discount_case (precompute constant_discount_case) st)
     = Fin (858993459199999 / 8589934592)"
proof -
  let ?pc = "precompute constant_discount_case"
  have f: "minNewFarms constant_discount_case = 30" "maxNewFarms constant_discount_case = 30"
    "lastYearFarms constant_discount_case = 30" "lastYearCost constant_discount_case = 1000000"
    "length (farmTypes constant_discount_case) = Suc 0"
    by (simp_all add: constant_discount_case_def)
  have avg: "avgPriceLastYear ?pc = Fin (4581298449066667 / 137438953472)"
    by (simp add: c8_precompute)
  have "fst (farm_loop 30 (Suc 0) ?pc st' (Fin 0)) = Fin (7730941132800001 / 8589934592)" for st'
    unfolding farm_loop_draw fst_conv c8_draw avg foldl_replicate_add c8_term c8_partial ..
  then show ?thesis
    using c8_nFarms c8_saving
    by (simp add: run_trial_def Let_def case_prod_beta f)
qed

lemma c8_savings:
  "trial_loop k constant_discount_case (precompute constant_discount_case) st
     = replicate k (Fin (858993459199999 / 8589934592))"
  by (induction k arbitrary: st) (simp_all add: Let_def case_prod_beta c8_run_trial)


lemma c8_sum: "(add_to (858993459199999 / 8589934592) ^^ 1000) 0 = 6710886399999999 / 67108864"
  by (simp add: funpow_unroll add_to_def fl_eval)

lemma c8_mean: "fdiv (6710886399999999 / 67108864) 1000 = 6871947673599999 / 68719476736"
  by (simp add: fl_eval)

lemma c8_deviation:
  "fmul (fsub (858993459199999 / 8589934592) (6871947673599999 / 68719476736))
        (fsub (858993459199999 / 8589934592) (6871947673599999 / 68719476736))
     = 49 * pow2 (- 72)"
  by (simp add: fl_eval)

lemma c8_squares: "k \<le> 1000 \<Longrightarrow> (add_to (49 * pow2 (- 72)) ^^ k) 0 = of_int (49 * int k) * pow2 (- 72)"
proof (induction k)
  case 0
  show ?case by simp
next
  case (Suc k)
  then have IH: "(add_to (49 * pow2 (- 72)) ^^ k) 0 = of_int (49 * int k) * pow2 (- 72)" by simp
  have "(add_to (49 * pow2 (- 72)) ^^ Suc k) 0
          = fl (of_int (49 * int k) * pow2 (- 72) + 49 * pow2 (- 72))"
    by (simp add: IH add_to_def fadd_def)
  also have "of_int (49 * int k) * pow2 (- 72) + 49 * pow2 (- 72)
               = of_int (49 * int (Suc k)) * pow2 (- 72)"
    by (simp add: algebra_simps)
  also have "fl \<dots> = of_int (49 * int (Suc k)) * pow2 (- 72)"
    using Suc.prems by (intro fl_fix) simp
  finally show ?case .
qed

lemma c8_variance: "fdiv (of_int (49 * int 1000) * pow2 (- 72)) (fsub 1000 1)
                      = 1725759992345113 * pow2 (- 117)"
  by (simp add: fl_eval)

lemma c8_std:
  "1 / 2 ^ 34 \<le> fl (sqrt (1725759992345113 * pow2 (- 117)))"
  "fl (sqrt (1725759992345113 * pow2 (- 117))) \<le> 1 / 2 ^ 32"
proof -
  let ?v = "1725759992345113 * pow2 (- 117)"
  have "(1 / 2 ^ 34)\<^sup>2 \<le> ?v" by (simp add: pow2_def power2_eq_square)
  then have "1 / 2 ^ 34 \<le> sqrt ?v" by (rule real_le_rsqrt)
  then have "fl (1 / 2 ^ 34) \<le> fl (sqrt ?v)" by (rule fl_mono)
  moreover have "fl (1 / 2 ^ 34) = 1 / 2 ^ 34" using fl_fix [of 1 "- 34"] by (simp add: pow2_def)
  ultimately show "1 / 2 ^ 34 \<le> fl (sqrt ?v)" by simp
  have "?v \<le> (1 / 2 ^ 32)\<^sup>2" by (simp add: pow2_def power2_eq_square)
  then have "sqrt ?v \<le> 1 / 2 ^ 32" by (intro real_le_lsqrt) simp_all
  then have "fl (sqrt ?v) \<le> fl (1 / 2 ^ 32)" by (rule fl_mono)
  moreover have "fl (1 / 2 ^ 32) = 1 / 2 ^ 32" using fl_fix [of 1 "- 32"] by (simp add: pow2_def)
  ultimately show "fl (sqrt ?v) \<le> 1 / 2 ^ 32" by simp
qed

lemma jmin_list_replicate: "0 < n \<Longrightarrow> jmin_list (replicate n (Fin v)) = Fin v"
  using jmin_list_fin [of "replicate n v"] by simp

lemma jmax_list_replicate: "0 < n \<Longrightarrow> jmax_list (replicate n (Fin v)) = Fin v"
  using jmax_list_fin [of "replicate n v"] by simp

lemma nth_opt_replicate: "0 \<le> i \<Longrightarrow> i < int n \<Longrightarrow> nth_opt (replicate n x) i = Some x"
  by (simp add: nth_opt_def)

lemma c8_stats:
  "\<exists>x. compute_stats (replicate 1000 (Fin (858993459199999 / 8589934592))) =
     \<lparr> mean = Fin (6871947673599999 / 68719476736),
       median = Some (Fin (858993459199999 / 8589934592)),
       std = Fin x,
       smin = Fin (858993459199999 / 8589934592),
       smax = Fin (858993459199999 / 8589934592),
       p10 = Some (Fin (858993459199999 / 8589934592)),
       p90 = Some (Fin (858993459199999 / 8589934592)),
       probPositive = Fin 1 \<rparr> \<and> 1 / 2 ^ 34 \<le> x \<and> x \<le> 1 / 2 ^ 32"
proof -
  let ?v = "858993459199999 / 8589934592 :: real"
  let ?svs = "replicate 1000 (Fin ?v)"
  have len: "real (length ?svs) = 1000" by simp
  have i50: "\<lfloor>fdiv 1000 2\<rfloor> = 500" using half_index [of 1000] by simp
  have i10: "0 \<le> \<lfloor>fmul 1000 (fl (1/10))\<rfloor>" "\<lfloor>fmul 1000 (fl (1/10))\<rfloor> < int 1000"
    using scaled_index [of 1000 "fl (1/10)"] fl_tenth_bounds by simp_all
  have i90: "0 \<le> \<lfloor>fmul 1000 (fl (9/10))\<rfloor>" "\<lfloor>fmul 1000 (fl (9/10))\<rfloor> < int 1000"
    using scaled_index [of 1000 "fl (9/10)"] fl_nine_tenths_bounds by simp_all
  have med: "nth_opt ?svs \<lfloor>fdiv 1000 2\<rfloor> = Some (Fin ?v)"
    unfolding i50 by (rule nth_opt_replicate) simp_all
  have p10: "nth_opt ?svs \<lfloor>fmul 1000 (fl (1/10))\<rfloor> = Some (Fin ?v)"
    using i10 by (rule nth_opt_replicate)
  have p90: "nth_opt ?svs \<lfloor>fmul 1000 (fl (9/10))\<rfloor> = Some (Fin ?v)"
    using i90 by (rule nth_opt_replicate)
  have mean: "jdiv (foldl jadd (Fin 0) ?svs) (Fin 1000) = Fin (6871947673599999 / 68719476736)"
    by (simp only: foldl_replicate_sum c8_sum jdiv.simps c8_mean) simp
  have var: "jdiv (foldl (\<lambda>sum val. jadd sum (jsquare (jsub val (Fin (6871947673599999 / 68719476736)))))
                     (Fin 0) ?svs) (Fin (fsub 1000 1))
               = Fin (1725759992345113 * pow2 (- 117))"
  proof -
    have n: "fsub 1000 1 \<noteq> 0" using fl_of_int [of 999] by (simp add: fsub_def)
    show ?thesis
      unfolding foldl_replicate_squares c8_deviation c8_squares [of 1000, simplified]
      using n c8_variance by simp
  qed
  have pos: "length (filter (\<lambda>sv. jlt (Fin 0) sv) ?svs) = 1000" by simp
  have one: "fdiv 1000 1000 = 1" using fl_of_int [of 1] by (simp add: fdiv_def)
  have "compute_stats ?svs =
     \<lparr> mean = Fin (6871947673599999 / 68719476736),
       median = Some (Fin ?v),
       std = Fin (fl (sqrt (1725759992345113 * pow2 (- 117)))),
       smin = Fin ?v, smax = Fin ?v, p10 = Some (Fin ?v), p90 = Some (Fin ?v),
       probPositive = Fin 1 \<rparr>"
    unfolding compute_stats_def Let_def js_sort_replicate len mean var med p10 p90 pos
    by (simp add: jmin_list_replicate jmax_list_replicate one)
  with c8_std show ?thesis by blast
qed

lemma c8_result:
  "\<exists>x. runFarmTypeSimulation env constant_discount_case =
     \<lparr> stats = \<lparr> mean = Fin (6871947673599999 / 68719476736),
                 median = Some (Fin (858993459199999 / 8589934592)),
                 std = Fin x,
                 smin = Fin (858993459199999 / 8589934592),
                 smax = Fin (858993459199999 / 8589934592),
                 p10 = Some (Fin (858993459199999 / 8589934592)),
                 p90 = Some (Fin (858993459199999 / 8589934592)),
                 probPositive = Fin 1 \<rparr>,
       savings = replicate 1000 (Fin (858993459199999 / 8589934592)) \<rparr>
     \<and> 1 / 2 ^ 34 \<le> x \<and> x \<le> 1 / 2 ^ 32"
proof -
  have t: "nat (trials constant_discount_case) = 1000" by (simp add: constant_discount_case_def)
  have "runFarmTypeSimulation env constant_discount_case =
          \<lparr> stats = compute_stats (replicate 1000 (Fin (858993459199999 / 8589934592))),
            savings = replicate 1000 (Fin (858993459199999 / 8589934592)) \<rparr>"
    unfolding runFarmTypeSimulation_def Let_def t c8_savings ..
  with c8_stats show ?thesis by auto
qed

section \<open>Rounding errors of a trial at full price\<close>
















section \<open>Claims\<close>

text \<open>
  C2. Two runs on the same scenario give the same result, whatever \<open>Math.random\<close>
  would return at the moment of each run: the generator of a run is created from the
  constant seed \<open>42\<close>, so the environment is never consulted and the savings sequence
  depends on the scenario only.
\<close>

theorem C2_simulate_deterministic:
  "createRNG (Some 42) env1 = 42 \<and>
   savings (runFarmTypeSimulation env1 s) = savings (runFarmTypeSimulation env2 s) \<and>
   runFarmTypeSimulation env1 s = runFarmTypeSimulation env2 s"
  by (simp add: runFarmTypeSimulation_def createRNG_def)

text \<open>
  C3, as stated, fails for large bounds. The generator of a run starts in state \<open>42\<close>;
  for \<open>min = max = 2^52 + 1 = 4503599627370497\<close> the first draw computes
  \<open>min + 1 * 1250496027 / 0x7fffffff\<close>, about \<open>min + 0.58\<close>, which binary64 rounds
  to \<open>min + 1\<close>: the result is \<open>max + 1\<close>.
\<close>

theorem C3_counterexample:
  "fst (rng_integers (of_int 4503599627370497) (of_int 4503599627370497) 42)
     = 4503599627370498"
  by (simp add: rng_integers_def lcg_42 fl_eval)

text \<open>
  C3, amended. For all integers \<open>min \<le> max\<close> of magnitude at most \<open>2^20\<close> and every
  state of the generator, \<open>integers(min, max)\<close> is an integer of the inclusive range
  \<open>[min, max]\<close>; in particular the farm count drawn by a trial, which is
  \<open>integers(minNewFarms, maxNewFarms)\<close>, lies in \<open>[minNewFarms, maxNewFarms]\<close> for
  such bounds.
\<close>

theorem C3_integers_in_range:
  assumes "mn \<le> mx" "\<bar>mn\<bar> \<le> 2 ^ 20" "\<bar>mx\<bar> \<le> 2 ^ 20"
  shows "mn \<le> fst (rng_integers (of_int mn) (of_int mx) state) \<and>
         fst (rng_integers (of_int mn) (of_int mx) state) \<le> mx"
  using rng_integers_lower [of mn mx state] rng_integers_upper [of mn mx state] assms
  by simp

theorem C3_integers_in_range_witness:
  "(8::int) \<le> 15 \<and> \<bar>8::int\<bar> \<le> 2 ^ 20 \<and> \<bar>15::int\<bar> \<le> 2 ^ 20 \<and>
   8 \<le> fst (rng_integers (of_int 8) (of_int 15) 42) \<and>
   fst (rng_integers (of_int 8) (of_int 15) 42) \<le> 15"
  using C3_integers_in_range [of 8 15 42] by simp



text \<open>
  C5. For a non-empty savings array (an array has fewer than \<open>2^32\<close> elements) the
  order statistics are read by index from the sorted copy: the median is the element at
  index \<open>floor(n/2)\<close>, which is \<open>n div 2\<close> (the upper median for even \<open>n\<close>, no
  average), \<open>p10\<close> the element at \<open>floor(n * 0.1)\<close> and \<open>p90\<close> the element at
  \<open>floor(n * 0.9)\<close>, both indices being inside the array. The copy is a permutation of
  the savings, ascending when no element is NaN or infinite. For \<open>[10, 20, 30, 40]\<close>
  the median is \<open>30\<close>.
\<close>

theorem C5_order_statistics_by_index:
  assumes "svs \<noteq> []" "length svs < 2 ^ 32"
  shows
    "mset (js_sort svs) = mset svs \<and>
     ((\<forall>v \<in> set svs. \<exists>a. v = Fin a) \<longrightarrow> sorted_wrt (\<lambda>a b. \<not> jlt b a) (js_sort svs)) \<and>
     median (compute_stats svs) = Some (js_sort svs ! (length svs div 2)) \<and>
     p10 (compute_stats svs)
       = Some (js_sort svs ! nat \<lfloor>fmul (real (length svs)) (fl (1/10))\<rfloor>) \<and>
     nat \<lfloor>fmul (real (length svs)) (fl (1/10))\<rfloor> < length svs \<and>
     p90 (compute_stats svs)
       = Some (js_sort svs ! nat \<lfloor>fmul (real (length svs)) (fl (9/10))\<rfloor>) \<and>
     nat \<lfloor>fmul (real (length svs)) (fl (9/10))\<rfloor> < length svs \<and>
     median (compute_stats [Fin 10, Fin 20, Fin 30, Fin 40]) = Some (Fin 30)"
proof -
  let ?n = "length svs"
  have n: "0 < ?n" using assms(1) by simp
  have len: "length (js_sort svs) = ?n" by (rule length_js_sort)
  have sp: "mset (js_sort svs) = mset svs \<and>
     ((\<forall>v \<in> set svs. \<exists>a. v = Fin a) \<longrightarrow> sorted_wrt (\<lambda>a b. \<not> jlt b a) (js_sort svs))"
    using js_sort_sorted [of svs] mset_js_sort [of svs] by blast
  have "median (compute_stats svs) = nth_opt (js_sort svs) \<lfloor>fdiv (real ?n) 2\<rfloor>"
    by (simp add: compute_stats_def Let_def)
  also have "\<dots> = nth_opt (js_sort svs) (int (?n div 2))"
    by (simp only: half_index [OF assms(2)])
  also have "\<dots> = Some (js_sort svs ! nat (int (?n div 2)))"
    using n by (intro nth_opt_in_range) (simp_all add: len)
  finally have m: "median (compute_stats svs) = Some (js_sort svs ! (?n div 2))" by simp
  have i10: "0 \<le> \<lfloor>fmul (real ?n) (fl (1/10))\<rfloor>" "\<lfloor>fmul (real ?n) (fl (1/10))\<rfloor> < int ?n"
    using scaled_index [OF n assms(2), of "fl (1/10)"] fl_tenth_bounds by simp_all
  have i90: "0 \<le> \<lfloor>fmul (real ?n) (fl (9/10))\<rfloor>" "\<lfloor>fmul (real ?n) (fl (9/10))\<rfloor> < int ?n"
    using scaled_index [OF n assms(2), of "fl (9/10)"] fl_nine_tenths_bounds by simp_all
  have "p10 (compute_stats svs) = nth_opt (js_sort svs) \<lfloor>fmul (real ?n) (fl (1/10))\<rfloor>"
    by (simp add: compute_stats_def Let_def)
  also have "\<dots> = Some (js_sort svs ! nat \<lfloor>fmul (real ?n) (fl (1/10))\<rfloor>)"
    using i10 by (intro nth_opt_in_range) (simp_all only: len)
  finally have p10: "p10 (compute_stats svs)
       = Some (js_sort svs ! nat \<lfloor>fmul (real ?n) (fl (1/10))\<rfloor>)" .
  have "p90 (compute_stats svs) = nth_opt (js_sort svs) \<lfloor>fmul (real ?n) (fl (9/10))\<rfloor>"
    by (simp add: compute_stats_def Let_def)
  also have "\<dots> = Some (js_sort svs ! nat \<lfloor>fmul (real ?n) (fl (9/10))\<rfloor>)"
    using i90 by (intro nth_opt_in_range) (simp_all only: len)
  finally have p90: "p90 (compute_stats svs)
       = Some (js_sort svs ! nat \<lfloor>fmul (real ?n) (fl (9/10))\<rfloor>)" .
  have "median (compute_stats [Fin 10, Fin 20, Fin 30, Fin 40])
          = nth_opt (js_sort [Fin 10, Fin 20, Fin 30, Fin 40]) \<lfloor>fdiv (real 4) 2\<rfloor>"
    by (simp add: compute_stats_def Let_def)
  also have "\<dots> = nth_opt (js_sort [Fin 10, Fin 20, Fin 30, Fin 40]) 2"
    using half_index [of 4] by simp
  also have "\<dots> = Some (Fin 30)" by (simp add: nth_opt_def js_sort_def)
  finally have ex: "median (compute_stats [Fin 10, Fin 20, Fin 30, Fin 40]) = Some (Fin 30)" .
  have r10: "nat \<lfloor>fmul (real ?n) (fl (1/10))\<rfloor> < ?n" using i10 by linarith
  have r90: "nat \<lfloor>fmul (real ?n) (fl (9/10))\<rfloor> < ?n" using i90 by linarith
  show ?thesis using sp m p10 p90 r10 r90 ex by blast
qed

theorem C5_order_statistics_witness:
  "[Fin 10, Fin 20, Fin 30, Fin 40] \<noteq> [] \<and> length [Fin 10, Fin 20, Fin 30, Fin 40] < (2::nat) ^ 32 \<and>
   median (compute_stats [Fin 10, Fin 20, Fin 30, Fin 40])
     = Some (js_sort [Fin 10, Fin 20, Fin 30, Fin 40] ! 2) \<and>
   js_sort [Fin 10, Fin 20, Fin 30, Fin 40] ! 2 = Fin 30"
  using C5_order_statistics_by_index [of "[Fin 10, Fin 20, Fin 30, Fin 40]"]
  by (simp add: js_sort_def)




text \<open>
  C7 fails on the code. When all savings are equal the bin width is \<open>0\<close>, the index of
  every value is \<open>floor(0 / 0)\<close>, which is NaN, and \<open>bins[NaN]++\<close> changes no
  count: nothing is special-cased, the call returns without an exception, and the 40 bins
  it returns are all empty. For two trials saving \<open>100000\<close> each:
\<close>

theorem C7_degenerate_histogram_is_empty:
  "createHistogramData [Fin 100000, Fin 100000]
     = map (\<lambda>i. \<lparr> bin_savings = Fin 100000, bin_count = 0 \<rparr>) [0..<40] \<and>
   sum_list (map bin_count (createHistogramData [Fin 100000, Fin 100000])) = 0"
proof -
  have "fl 100000 = 100000" using fl_of_int [of 100000] by simp
  then have "jround (Fin (fl 100000)) = Fin 100000" by simp
  then have h: "createHistogramData [Fin 100000, Fin 100000]
     = map (\<lambda>i. \<lparr> bin_savings = Fin 100000, bin_count = 0 \<rparr>) [0..<40]"
    using degenerate_bins [of "[Fin 100000, Fin 100000]" 100000] by simp
  have "sum_list (map bin_count (map (\<lambda>i. \<lparr> bin_savings = Fin 100000, bin_count = 0 \<rparr>) [0..<40])) = 0"
    by (simp add: comp_def del: upt_rec_numeral)
  with h show ?thesis by simp
qed

text \<open>
  C1. For a scenario that passes validation, the run returns a savings sequence of length
  exactly \<open>trials\<close>, and its entry for trial \<open>i\<close> is \<open>lastYearCost - thisYearScaledCost\<close>
  for the farm count \<open>nFarms\<close> and the \<open>nFarms\<close> multipliers which that trial draws
  from the generator: the sum of \<open>multiplier * avgPriceLastYear\<close> over the farms, times
  \<open>lastYearFarms / nFarms\<close>, with \<open>avgPriceLastYear = lastYearCost / lastYearFarms\<close>.
\<close>

theorem C1_savings_follow_the_formula:
  fixes env :: nat and s :: scenario
  assumes "snd (validateScenario s)"
  defines "svs \<equiv> savings (runFarmTypeSimulation env s)"
  shows "int (length svs) = trials s \<and>
         (\<forall>i < length svs.
            let (nFarms, state1) =
                  rng_integers (of_int (minNewFarms s)) (of_int (maxNewFarms s)) (trial_state s i);
                (multipliers, state2) =
                  draw_multipliers (nat nFarms) (length (farmTypes s)) (precompute s) state1
            in 1 \<le> nFarms \<and> int (length multipliers) = nFarms \<and>
               svs ! i = spec_trial_savings s nFarms multipliers)"
proof -
  have svs: "svs = trial_loop (nat (trials s)) s (precompute s) 42"
    by (simp add: svs_def runFarmTypeSimulation_def createRNG_def Let_def)
  have len: "int (length svs) = trials s"
    using valid_fields(6) [OF assms(1)] by (simp add: svs length_trial_loop)
  have "\<forall>i < length svs.
            let (nFarms, state1) =
                  rng_integers (of_int (minNewFarms s)) (of_int (maxNewFarms s)) (trial_state s i);
                (multipliers, state2) =
                  draw_multipliers (nat nFarms) (length (farmTypes s)) (precompute s) state1
            in 1 \<le> nFarms \<and> int (length multipliers) = nFarms \<and>
               svs ! i = spec_trial_savings s nFarms multipliers"
  proof (intro allI impI)
    fix i assume i: "i < length svs"
    then have ik: "i < nat (trials s)" by (simp add: svs length_trial_loop)
    let ?st = "trial_state s i"
    let ?n = "fst (rng_integers (of_int (minNewFarms s)) (of_int (maxNewFarms s)) ?st)"
    let ?st1 = "snd (rng_integers (of_int (minNewFarms s)) (of_int (maxNewFarms s)) ?st)"
    let ?ms = "fst (draw_multipliers (nat ?n) (length (farmTypes s)) (precompute s) ?st1)"
    have n: "1 \<le> ?n"
      using valid_fields(3,5) [OF assms(1)] by (intro rng_integers_pos) simp_all
    then have l: "int (length ?ms) = ?n" by (simp add: length_draw_multipliers)
    have "svs ! i = fst (run_trial s (precompute s) ?st)"
      unfolding svs trial_state_def using ik by (rule trial_loop_nth)
    then have "svs ! i = spec_trial_savings s ?n ?ms" by (simp only: run_trial_spec)
    with n l show "let (nFarms, state1) =
                  rng_integers (of_int (minNewFarms s)) (of_int (maxNewFarms s)) (trial_state s i);
                (multipliers, state2) =
                  draw_multipliers (nat nFarms) (length (farmTypes s)) (precompute s) state1
            in 1 \<le> nFarms \<and> int (length multipliers) = nFarms \<and>
               svs ! i = spec_trial_savings s nFarms multipliers"
      by (simp add: Let_def case_prod_beta)
  qed
  with len show ?thesis by blast
qed


theorem C1_savings_witness:
  "snd (validateScenario base_case) \<and>
   int (length (savings (runFarmTypeSimulation 0 base_case))) = 10000"
proof -
  have t: "totalShare defaultFarmTypes = 100"
    by (simp add: defaultFarmTypes_def totalShare_def fl_eval)
  have "fsub 100 100 = 0" by (simp add: fsub_def)
  then have f: "field_errors base_case = Map.empty"
    by (simp add: field_errors_def base_case_def t Let_def)
  have v: "snd (validateScenario base_case)"
    unfolding validateScenario_def Let_def f
    by (simp add: base_case_def defaultFarmTypes_def check_farmType_def)
  show ?thesis using C1_savings_follow_the_formula [OF v, of 0] v
    by (simp add: base_case_def)
qed



text \<open>
  C8, as stated, fails in binary64. \<open>1000000 / 30\<close> is rounded to
  \<open>33333.333333333336\<close> and the multiplier is the binary64 number nearest \<open>0.9\<close>; their
  product is rounded to \<open>30000.000000000004\<close>, thirty of them accumulate to
  \<open>900000.0000000001\<close>, and the first (as every) trial saves
  \<open>858993459199999 / 2^33 = 99999.99999999988\<close>, not \<open>100000\<close>; the standard deviation is
  not \<open>0\<close>.
\<close>

theorem C8_counterexample:
  "savings (runFarmTypeSimulation 0 constant_discount_case) ! 0
     = Fin (858993459199999 / 8589934592) \<and>
   savings (runFarmTypeSimulation 0 constant_discount_case) ! 0 \<noteq> Fin 100000 \<and>
   std (stats (runFarmTypeSimulation 0 constant_discount_case)) \<noteq> Fin 0"
proof -
  from c8_result [of 0] obtain x where
    r: "runFarmTypeSimulation 0 constant_discount_case =
     \<lparr> stats = \<lparr> mean = Fin (6871947673599999 / 68719476736),
                 median = Some (Fin (858993459199999 / 8589934592)),
                 std = Fin x,
                 smin = Fin (858993459199999 / 8589934592),
                 smax = Fin (858993459199999 / 8589934592),
                 p10 = Some (Fin (858993459199999 / 8589934592)),
                 p90 = Some (Fin (858993459199999 / 8589934592)),
                 probPositive = Fin 1 \<rparr>,
       savings = replicate 1000 (Fin (858993459199999 / 8589934592)) \<rparr>"
    and x: "1 / 2 ^ 34 \<le> x" by blast
  have "x \<noteq> 0" using x by auto
  then show ?thesis unfolding r by simp
qed

text \<open>
  C8, amended. For that scenario, in the binary64 arithmetic of the code: every
  multiplier drawn is the binary64 number nearest \<open>0.9\<close>, \<open>8106479329266893 / 2^53\<close>;
  every \<open>savings[i]\<close> is \<open>858993459199999 / 2^33\<close>, which is \<open>100000 - 2^-33\<close>;
  \<open>median\<close>, \<open>p10\<close>, \<open>p90\<close>, \<open>min\<close> and \<open>max\<close> are that value; \<open>mean\<close> is
  \<open>6871947673599999 / 2^36\<close>, which is \<open>100000 - 2^-36\<close>; \<open>std\<close> lies between \<open>2^-34\<close>
  and \<open>2^-32\<close> (it is about \<open>1.02e-10\<close>); \<open>probPositive\<close> is \<open>1\<close>.
\<close>

theorem C8_constant_discount_run:
  "fst (draw_multipliers 30 (length (farmTypes constant_discount_case))
         (precompute constant_discount_case) state)
     = replicate 30 (Fin (8106479329266893 / 2 ^ 53)) \<and>
   (\<exists>x. runFarmTypeSimulation env constant_discount_case =
     \<lparr> stats = \<lparr> mean = Fin (6871947673599999 / 2 ^ 36),
                 median = Some (Fin (858993459199999 / 2 ^ 33)),
                 std = Fin x,
                 smin = Fin (858993459199999 / 2 ^ 33),
                 smax = Fin (858993459199999 / 2 ^ 33),
                 p10 = Some (Fin (858993459199999 / 2 ^ 33)),
                 p90 = Some (Fin (858993459199999 / 2 ^ 33)),
                 probPositive = Fin 1 \<rparr>,
       savings = replicate 1000 (Fin (858993459199999 / 2 ^ 33)) \<rparr>
     \<and> 1 / 2 ^ 34 \<le> x \<and> x \<le> 1 / 2 ^ 32) \<and>
   (858993459199999 / 2 ^ 33 :: real) = 100000 - 1 / 2 ^ 33 \<and>
   (6871947673599999 / 2 ^ 36 :: real) = 100000 - 1 / 2 ^ 36"
proof -
  have l: "length (farmTypes constant_discount_case) = Suc 0"
    by (simp add: constant_discount_case_def)
  have d: "fst (draw_multipliers 30 (length (farmTypes constant_discount_case))
         (precompute constant_discount_case) state)
     = replicate 30 (Fin (8106479329266893 / 2 ^ 53))"
    unfolding l c8_draw by simp
  show ?thesis using d c8_result [of env] by simp
qed



end
